theory Spec2Isabelle
  imports Complex_Main "HOL-Library.AList" "HOL-Library.Log_Nat"
begin

section \<open>Numbers\<close>

text \<open>
  A number of the program is a binary64 value: a rational that the format holds, one of the
  two infinities, or NaN. (\<^verbatim>\<open>JSON.parse\<close> makes an infinity of a literal beyond the range,
  and the sums and quotients of \<^verbatim>\<open>sumCoverage\<close> can make all three.) The two zeros of the
  format are one value here: the program never divides by a zero, since lines 363 to 366
  test the total first, so it cannot tell them apart.
\<close>

datatype number = Finite rat | PosInf | NegInf | NaN

text \<open>The exponent of a rational \<open>x \<noteq> 0\<close>: the \<open>e\<close> with \<open>2\<^sup>e \<le> \<bar>x\<bar> < 2\<^sup>e\<^sup>+\<^sup>1\<close>.\<close>

definition exponentOf :: "rat \<Rightarrow> int" where
  "exponentOf x =
     (let (p, q) = quotient_of \<bar>x\<bar>;
          d = bitlen p - bitlen q
      in if power_int 2 d \<le> \<bar>x\<bar> then d else d - 1)"

text \<open>The nearest integer, a tie going to the even one.\<close>

definition roundEven :: "rat \<Rightarrow> int" where
  "roundEven x =
     (let f = \<lfloor>x\<rfloor>; r = x - of_int f
      in if r < 1 / 2 then f else if 1 / 2 < r then f + 1 else if even f then f else f + 1)"

text \<open>
  The binary64 value of an exact result \<open>x\<close>, which every arithmetic operation of the
  language returns: \<open>x\<close> rounded to the nearest multiple of the unit in its last place (53
  significant bits; below \<open>2\<^sup>-\<^sup>1\<^sup>0\<^sup>2\<^sup>2\<close> the unit stays \<open>2\<^sup>-\<^sup>1\<^sup>0\<^sup>7\<^sup>4\<close>), ties to even, and an
  infinity when the rounded value reaches \<open>2\<^sup>1\<^sup>0\<^sup>2\<^sup>4\<close>.
\<close>

definition fl :: "rat \<Rightarrow> number" where
  "fl x =
     (if x = 0 then Finite 0
      else
        let e = max (exponentOf x) (- 1022);
            u = power_int 2 (e - 52);
            m = roundEven (x / u)
        in if 1023 < e \<or> (e = 1023 \<and> \<bar>m\<bar> = 2 ^ 53)
           then (if 0 < x then PosInf else NegInf)
           else Finite (of_int m * u))"

text \<open>\<^verbatim>\<open>a + b\<close>, \<^verbatim>\<open>a * b\<close> and \<^verbatim>\<open>a / b\<close> on numbers.\<close>

definition numAdd :: "number \<Rightarrow> number \<Rightarrow> number" where
  "numAdd x y =
     (case (x, y) of
        (Finite a, Finite b) \<Rightarrow> fl (a + b)
      | (NaN, _) \<Rightarrow> NaN
      | (_, NaN) \<Rightarrow> NaN
      | (PosInf, NegInf) \<Rightarrow> NaN
      | (NegInf, PosInf) \<Rightarrow> NaN
      | (Finite a, _) \<Rightarrow> y
      | _ \<Rightarrow> x)"

definition numMul :: "number \<Rightarrow> number \<Rightarrow> number" where
  "numMul x y =
     (case (x, y) of
        (Finite a, Finite b) \<Rightarrow> fl (a * b)
      | (NaN, _) \<Rightarrow> NaN
      | (_, NaN) \<Rightarrow> NaN
      | (Finite a, _) \<Rightarrow> if a = 0 then NaN else if (0 < a) = (y = PosInf) then PosInf else NegInf
      | (_, Finite b) \<Rightarrow> if b = 0 then NaN else if (0 < b) = (x = PosInf) then PosInf else NegInf
      | _ \<Rightarrow> if x = y then PosInf else NegInf)"

definition numDiv :: "number \<Rightarrow> number \<Rightarrow> number" where
  "numDiv x y =
     (case (x, y) of
        (Finite a, Finite b) \<Rightarrow>
          if b = 0 then (if a = 0 then NaN else if 0 < a then PosInf else NegInf)
          else fl (a / b)
      | (NaN, _) \<Rightarrow> NaN
      | (_, NaN) \<Rightarrow> NaN
      | (Finite a, _) \<Rightarrow> Finite 0
      | (_, Finite b) \<Rightarrow> if (0 \<le> b) = (x = PosInf) then PosInf else NegInf
      | _ \<Rightarrow> NaN)"

section \<open>Values of the JavaScript program\<close>

text \<open>
  \<^verbatim>\<open>create-markdown.js\<close> works on what \<^verbatim>\<open>require\<close> loads from a JSON file and on
  the objects it builds itself. A value is a JSON value. An object is the list of its own
  properties in enumeration order: a property that is written again keeps its place, a new
  one goes to the end (\<open>AList.update\<close>). Keys that are canonical array indices, which
  the engine enumerates before all others, are not reordered here; no claim below
  depends on the order of the keys of an object. \<open>None\<close> of type \<open>json option\<close> is
  \<^verbatim>\<open>undefined\<close>.
\<close>

datatype json =
    JNull
  | JBool bool
  | JNum number
  | JStr string
  | JArr "json list"
  | JObj "(string \<times> json) list"

text \<open>
  An uncaught exception of the source is a value. \<open>OutOfModel\<close> is none: it marks the
  three places where the program goes on with a state that a \<open>json\<close> value cannot hold,
  and where the model stops. They are a property written on an array, a write to the
  property \<^verbatim>\<open>__proto__\<close> of an object, and a write through the key \<^verbatim>\<open>__proto__\<close> of
  \<^verbatim>\<open>jsonSummary\<close> or \<^verbatim>\<open>dividedJsonSummary\<close> when the object does not own that key: it
  lands on \<^verbatim>\<open>Object.prototype\<close> and shows in every object from then on.
\<close>

datatype js_error = TypeError | RangeError | OutOfModel

type_synonym 'a result = "js_error + 'a"

fun truthy :: "json \<Rightarrow> bool" where
  "truthy JNull = False"
| "truthy (JBool b) = b"
| "truthy (JNum n) = (n \<noteq> Finite 0 \<and> n \<noteq> NaN)"
| "truthy (JStr s) = (s \<noteq> [])"
| "truthy (JArr xs) = True"
| "truthy (JObj kvs) = True"

definition truthy_opt :: "json option \<Rightarrow> bool" where
  "truthy_opt v = (case v of None \<Rightarrow> False | Some x \<Rightarrow> truthy x)"

text \<open>
  \<^verbatim>\<open>v.name\<close> for a value that is neither \<^verbatim>\<open>null\<close> nor \<^verbatim>\<open>undefined\<close> and a name that
  is neither an array index nor \<^verbatim>\<open>length\<close> (the names the program reads this way are
  \<^verbatim>\<open>lines\<close>, \<^verbatim>\<open>total\<close>, \<^verbatim>\<open>pct\<close>, \<^verbatim>\<open>uncovered\<close> and the like): only an object has it.
\<close>

fun get_prop :: "json \<Rightarrow> string \<Rightarrow> json option" where
  "get_prop (JObj kvs) k = map_of kvs k"
| "get_prop v k = None"

text \<open>
  \<^verbatim>\<open>v[k] = x\<close> in sloppy mode (the file has no \<^verbatim>\<open>"use strict"\<close>): on a primitive the
  write is dropped silently, on \<^verbatim>\<open>null\<close> it throws.
\<close>

fun set_prop :: "json \<Rightarrow> string \<Rightarrow> json \<Rightarrow> json result" where
  "set_prop (JObj kvs) k x =
     (if k = ''__proto__'' then Inl OutOfModel else Inr (JObj (AList.update k x kvs)))"
| "set_prop (JArr xs) k x = Inl OutOfModel"
| "set_prop JNull k x = Inl TypeError"
| "set_prop v k x = Inr v"

text \<open>
  The names that every object inherits from \<^verbatim>\<open>Object.prototype\<close>. \<^verbatim>\<open>obj[k]\<close> for such a
  name that \<open>obj\<close> does not own is a function, and for \<^verbatim>\<open>__proto__\<close> it is
  \<^verbatim>\<open>Object.prototype\<close> itself: a truthy value in both cases.
\<close>

definition inherited :: "string \<Rightarrow> bool" where
  "inherited k = (k \<in> set [''constructor'', ''__proto__'', ''toString'', ''valueOf'',
     ''hasOwnProperty'', ''isPrototypeOf'', ''propertyIsEnumerable'', ''toLocaleString'',
     ''__defineGetter__'', ''__defineSetter__'', ''__lookupGetter__'', ''__lookupSetter__''])"

section \<open>Strings and the three regular expressions\<close>

text \<open>
  A string is a list of 8-bit characters, so the line terminators of the language are the
  line feed and the carriage return here; the two separators beyond that range, U+2028 and
  U+2029, are not told apart from other text. \<^verbatim>\<open>s.split(sep)\<close> for a one-character
  separator, generalised to a predicate so that it also cuts a string at line terminators.
\<close>

fun splitOn :: "(char \<Rightarrow> bool) \<Rightarrow> string \<Rightarrow> string list" where
  "splitOn P [] = [[]]"
| "splitOn P (c # cs) =
     (if P c then [] # splitOn P cs
      else (case splitOn P cs of [] \<Rightarrow> [[c]] | s # ss \<Rightarrow> (c # s) # ss))"

fun joinWith :: "string \<Rightarrow> string list \<Rightarrow> string" where
  "joinWith sep [] = []"
| "joinWith sep [s] = s"
| "joinWith sep (s # t # ss) = s @ sep @ joinWith sep (t # ss)"

definition lineTerminator :: "char \<Rightarrow> bool" where
  "lineTerminator c = (c = CHR 0x0A \<or> c = CHR 0x0D)"

text \<open>
  All three expressions have the form \<^verbatim>\<open>/^...$/m\<close> with a body that cannot cross a line
  terminator, so \<^verbatim>\<open>s.match(re)\<close> is the first piece of \<open>s\<close> between line terminators
  that the body matches as a whole. (A line delivered by \<^verbatim>\<open>readline\<close> has one piece.)
\<close>

definition firstMatch :: "(string \<Rightarrow> 'a option) \<Rightarrow> string \<Rightarrow> 'a option" where
  "firstMatch body s =
     (case List.map_filter body (splitOn lineTerminator s) of [] \<Rightarrow> None | x # _ \<Rightarrow> Some x)"

definition isDigit :: "char \<Rightarrow> bool" where
  "isDigit c = (c \<in> set ''0123456789'')"

definition digitValue :: "char \<Rightarrow> nat" where
  "digitValue c = of_char c - 48"

text \<open>
  Unary \<^verbatim>\<open>+\<close> on a string of decimal digits. The source's value is a binary64 number,
  exact below \<open>2 ^ 53\<close>; the model keeps every line number exact.
\<close>

definition toNumber :: "string \<Rightarrow> nat" where
  "toNumber ds = foldl (\<lambda>n c. 10 * n + digitValue c) 0 ds"

text \<open>\<^verbatim>\<open>/^SF:(.+)$/m\<close>: the value is capture group 1.\<close>

definition reSF_body :: "string \<Rightarrow> string option" where
  "reSF_body s = (if take 3 s = ''SF:'' \<and> drop 3 s \<noteq> [] then Some (drop 3 s) else None)"

definition reSF :: "string \<Rightarrow> string option" where
  "reSF line = firstMatch reSF_body line"

text \<open>\<^verbatim>\<open>/^DA:([0-9]+),0$/m\<close>: the value is \<^verbatim>\<open>+uncoveredMatches[1]\<close>.\<close>

definition reDA_body :: "string \<Rightarrow> nat option" where
  "reDA_body s =
     (let rest = drop 3 s;
          ds = take (length rest - 2) rest
      in if take 3 s = ''DA:'' \<and> drop (length rest - 2) rest = '',0''
            \<and> ds \<noteq> [] \<and> list_all isDigit ds
         then Some (toNumber ds) else None)"

definition reDA :: "string \<Rightarrow> nat option" where
  "reDA line = firstMatch reDA_body line"

text \<open>\<^verbatim>\<open>/^.+\.js$/m\<close>, used only as a test.\<close>

definition isJsFileRe_body :: "string \<Rightarrow> unit option" where
  "isJsFileRe_body s =
     (if 3 < length s \<and> drop (length s - 3) s = ''.js'' then Some () else None)"

definition isJsFileRe :: "string \<Rightarrow> bool" where
  "isJsFileRe k = (firstMatch isJsFileRe_body k \<noteq> None)"

text \<open>\<^verbatim>\<open>`${n}`\<close> for a line number.\<close>

fun showNat :: "nat \<Rightarrow> string" where
  "showNat n =
     (if n < 10 then [''0123456789'' ! n]
      else showNat (n div 10) @ [''0123456789'' ! (n mod 10)])"

declare showNat.simps [simp del]

text \<open>
  \<^verbatim>\<open>s.replace(pat, rep)\<close> for a string pattern: the first occurrence, anywhere in \<open>s\<close>.
  No replacement text of the program holds a \<^verbatim>\<open>$\<close>.
\<close>

fun replaceFirst :: "string \<Rightarrow> string \<Rightarrow> string \<Rightarrow> string" where
  "replaceFirst pat rep [] = (if pat = [] then rep else [])"
| "replaceFirst pat rep (c # cs) =
     (if take (length pat) (c # cs) = pat then rep @ drop (length pat) (c # cs)
      else c # replaceFirst pat rep cs)"

section \<open>RangeParser and SummaryMerger: the \<^verbatim>\<open>line\<close> handler\<close>

text \<open>
  The four variables of lines 49 to 52 and \<^verbatim>\<open>jsonSummary\<close>, which the handler updates.
  \<open>filename = None\<close> is the initial \<^verbatim>\<open>null\<close>.
\<close>

record parser =
  filename :: "string option"
  isRecordingUncovered :: bool
  uncoveredBeginning :: nat
  uncoveredEnd :: nat
  jsonSummary :: "(string \<times> json) list"

text \<open>The property key that \<^verbatim>\<open>jsonSummary[filename]\<close> uses.\<close>

definition propertyKey :: "string option \<Rightarrow> string" where
  "propertyKey f = (case f of None \<Rightarrow> ''null'' | Some s \<Rightarrow> s)"

text \<open>Lines 83 to 86.\<close>

definition uncoveredString :: "nat \<Rightarrow> nat \<Rightarrow> string" where
  "uncoveredString b e = showNat b @ (if e \<noteq> b then ''-'' @ showNat e else [])"

text \<open>
  Lines 87 to 93, on the summary, for the key \<open>k\<close> and the range string \<open>s\<close>. When the
  summary does not own \<open>k\<close> and \<open>k\<close> is an inherited name, \<^verbatim>\<open>jsonSummary[filename]\<close> is
  the inherited function, which is truthy: no entry is created, \<^verbatim>\<open>uncovered\<close> is hung on
  that function and the range is pushed there, where nothing reads it again. The summary
  stays as it is.
\<close>

definition recordRange :: "(string \<times> json) list \<Rightarrow> string \<Rightarrow> string \<Rightarrow> (string \<times> json) list result" where
  "recordRange js k s =
     (if map_of js k = None \<and> inherited k
      then (if k = ''__proto__'' then Inl OutOfModel else Inr js)
      else
        let js1 = (if truthy_opt (map_of js k) then js else AList.update k (JObj []) js)
        in case map_of js1 k of
             None \<Rightarrow> Inl TypeError
           | Some e \<Rightarrow>
               (case (if truthy_opt (get_prop e ''uncovered'') then Inr e
                      else set_prop e ''uncovered'' (JArr [])) of
                  Inl err \<Rightarrow> Inl err
                | Inr e1 \<Rightarrow>
                    (case get_prop e1 ''uncovered'' of
                       Some (JArr xs) \<Rightarrow>
                         (case set_prop e1 ''uncovered'' (JArr (xs @ [JStr s])) of
                            Inl err \<Rightarrow> Inl err
                          | Inr e2 \<Rightarrow> Inr (AList.update k e2 js1))
                     | _ \<Rightarrow> Inl TypeError)))"

text \<open>The handler of lines 57 to 96: one line of the trace.\<close>

definition onLine :: "parser \<Rightarrow> string \<Rightarrow> parser result" where
  "onLine st line =
     (let filenameMatches = reSF line;
          uncoveredMatches = reDA line
      in case filenameMatches of
           Some f \<Rightarrow> Inr (st\<lparr>filename := Some f\<rparr>)
         | None \<Rightarrow>
             (case uncoveredMatches of
                Some n \<Rightarrow>
                  (if \<not> isRecordingUncovered st
                   then Inr (st\<lparr>isRecordingUncovered := True,
                                uncoveredBeginning := n, uncoveredEnd := n\<rparr>)
                   else Inr (st\<lparr>uncoveredEnd := n\<rparr>))
              | None \<Rightarrow>
                  (if isRecordingUncovered st
                   then (case recordRange (jsonSummary st) (propertyKey (filename st))
                                 (uncoveredString (uncoveredBeginning st) (uncoveredEnd st)) of
                           Inl err \<Rightarrow> Inl err
                         | Inr js \<Rightarrow> Inr (st\<lparr>jsonSummary := js, isRecordingUncovered := False\<rparr>))
                   else Inr st)))"

text \<open>The lines of the trace in order; an exception in the handler ends the run.\<close>

fun readLines :: "parser \<Rightarrow> string list \<Rightarrow> parser result" where
  "readLines st [] = Inr st"
| "readLines st (l # ls) = (case onLine st l of Inl err \<Rightarrow> Inl err | Inr st' \<Rightarrow> readLines st' ls)"

definition initialParser :: "(string \<times> json) list \<Rightarrow> parser" where
  "initialParser js = \<lparr>filename = None, isRecordingUncovered = False,
     uncoveredBeginning = 0, uncoveredEnd = 0, jsonSummary = js\<rparr>"

section \<open>Loading the summary (lines 16 to 32)\<close>

text \<open>\<^verbatim>\<open>s.replace(/\/+$/, "")\<close>: \<open>s\<close> without its trailing slashes.\<close>

definition stripTrailingSlashes :: "string \<Rightarrow> string" where
  "stripTrailingSlashes s = rev (dropWhile (\<lambda>c. c = CHR ''/'') (rev s))"

text \<open>
  Lines 16 to 20. \<open>env\<close> is the environment variable, \<open>dirname\<close> is \<^verbatim>\<open>__dirname\<close>.
  Line 20 computes the path without trailing slashes and does not assign it: a string is
  immutable, and the statement \<^verbatim>\<open>projectPath.replace(/\/+$/, "");\<close> drops its value.
\<close>

definition projectPathSetup :: "string option \<Rightarrow> string \<Rightarrow> string" where
  "projectPathSetup env dirname =
     (let projectPath = (case env of None \<Rightarrow> dirname | Some p \<Rightarrow> if p = [] then dirname else p);
          dropped = stripTrailingSlashes projectPath
      in projectPath)"

text \<open>Line 28, the key of one entry: \<^verbatim>\<open>k.replace(projectPath + "/", "")\<close>.\<close>

definition relativeKey :: "string \<Rightarrow> string \<Rightarrow> string" where
  "relativeKey projectPath k = replaceFirst (projectPath @ ''/'') [] k"

text \<open>\<^verbatim>\<open>Object.entries\<close>; \<open>None\<close> is the TypeError on \<^verbatim>\<open>null\<close>.\<close>

fun entries :: "json \<Rightarrow> (string \<times> json) list option" where
  "entries JNull = None"
| "entries (JObj kvs) = Some kvs"
| "entries (JArr xs) = Some (zip (map showNat [0..<length xs]) xs)"
| "entries (JStr s) = Some (zip (map showNat [0..<length s]) (map (\<lambda>c. JStr [c]) s))"
| "entries v = Some []"

definition fromEntries :: "(string \<times> json) list \<Rightarrow> (string \<times> json) list" where
  "fromEntries ps = foldl (\<lambda>obj (k, v). AList.update k v obj) [] ps"

text \<open>
  Lines 25 to 32. \<open>loaded\<close> is what \<^verbatim>\<open>require\<close> returned, \<open>None\<close> when it threw;
  every exception leaves the empty summary.
\<close>

definition loadSummary :: "string \<Rightarrow> json option \<Rightarrow> (string \<times> json) list" where
  "loadSummary projectPath loaded =
     (case loaded of
        None \<Rightarrow> []
      | Some v \<Rightarrow>
          (case entries v of
             None \<Rightarrow> []
           | Some ps \<Rightarrow> fromEntries (map (\<lambda>(k, v). (relativeKey projectPath k, v)) ps)))"

section \<open>TreeBuilder: the \<^verbatim>\<open>close\<close> handler, lines 105 to 121\<close>

definition pathSlices :: "string \<Rightarrow> string list" where
  "pathSlices filePath = splitOn (\<lambda>c. c = CHR ''/'') filePath"

definition pathWithoutFile :: "string \<Rightarrow> string" where
  "pathWithoutFile filePath = joinWith ''/'' (butlast (pathSlices filePath))"

definition lastSlice :: "string \<Rightarrow> string" where
  "lastSlice filePath = last (pathSlices filePath)"

text \<open>
  One round of the loop of line 106, on \<^verbatim>\<open>dividedJsonSummary\<close>. When the directory key
  is an inherited name that the tree does not own, line 113 finds the inherited function
  and line 116 hangs the file on it: the tree stays as it is.
\<close>

definition divideEntry :: "(string \<times> json) list \<Rightarrow> string \<Rightarrow> json \<Rightarrow> (string \<times> json) list result" where
  "divideEntry d filePath v =
     (if filePath = ''total'' then Inr (AList.update filePath v d)
      else
        let dir = pathWithoutFile filePath
        in if map_of d dir = None \<and> inherited dir
           then (if dir = ''__proto__'' then Inl OutOfModel else Inr d)
           else
             let d1 = (if truthy_opt (map_of d dir) then d else AList.update dir (JObj []) d)
             in case map_of d1 dir of
                  None \<Rightarrow> Inl TypeError
                | Some t \<Rightarrow>
                    (case set_prop t (lastSlice filePath) v of
                       Inl err \<Rightarrow> Inl err
                     | Inr t' \<Rightarrow> Inr (AList.update dir t' d1)))"

fun divideAll :: "(string \<times> json) list \<Rightarrow> (string \<times> json) list \<Rightarrow> (string \<times> json) list result" where
  "divideAll d [] = Inr d"
| "divideAll d ((filePath, v) # rest) =
     (case divideEntry d filePath v of Inl err \<Rightarrow> Inl err | Inr d' \<Rightarrow> divideAll d' rest)"

text \<open>Line 121: \<^verbatim>\<open>const { total: totalSummary, ...filesSummary } = dividedJsonSummary\<close>.\<close>

definition totalSummary :: "(string \<times> json) list \<Rightarrow> json option" where
  "totalSummary d = map_of d ''total''"

definition filesSummary :: "(string \<times> json) list \<Rightarrow> (string \<times> json) list" where
  "filesSummary d = filter (\<lambda>(k, v). k \<noteq> ''total'') d"

section \<open>Aggregator: \<^verbatim>\<open>sumCoverage\<close>\<close>

record coverageStat =
  stat_total :: number
  stat_covered :: number
  stat_skipped :: number
  stat_pct :: number

record coverageSums =
  sum_lines :: coverageStat
  sum_functions :: coverageStat
  sum_statements :: coverageStat
  sum_branches :: coverageStat

definition zeroStat :: coverageStat where
  "zeroStat = \<lparr>stat_total = Finite 0, stat_covered = Finite 0, stat_skipped = Finite 0,
     stat_pct = Finite 0\<rparr>"

definition zeroSums :: coverageSums where
  "zeroSums = \<lparr>sum_lines = zeroStat, sum_functions = zeroStat,
     sum_statements = zeroStat, sum_branches = zeroStat\<rparr>"

text \<open>
  \<^verbatim>\<open>if (typeof entry.lines.total == "number") { summary.lines.total += entry.lines.total; }\<close>
  for the value \<open>d\<close> of \<^verbatim>\<open>entry.lines\<close> and the field \<open>f\<close>.
\<close>

definition addField :: "json \<Rightarrow> string \<Rightarrow> number \<Rightarrow> number" where
  "addField d f acc = (case get_prop d f of Some (JNum n) \<Rightarrow> numAdd acc n | _ \<Rightarrow> acc)"

text \<open>\<^verbatim>\<open>if (entry.lines) { ... }\<close>, one of the four blocks of lines 302 to 345.\<close>

definition addDimension :: "json \<Rightarrow> string \<Rightarrow> coverageStat \<Rightarrow> coverageStat" where
  "addDimension entry name s =
     (case get_prop entry name of
        None \<Rightarrow> s
      | Some d \<Rightarrow>
          if truthy d
          then s\<lparr>stat_total := addField d ''total'' (stat_total s),
                 stat_covered := addField d ''covered'' (stat_covered s),
                 stat_skipped := addField d ''skipped'' (stat_skipped s)\<rparr>
          else s)"

text \<open>Lines 301 to 345; \<^verbatim>\<open>entry.lines\<close> throws when the entry is \<^verbatim>\<open>null\<close>.\<close>

definition addEntry :: "json \<Rightarrow> coverageSums \<Rightarrow> coverageSums result" where
  "addEntry entry summary =
     (if entry = JNull then Inl TypeError
      else Inr (summary\<lparr>sum_lines := addDimension entry ''lines'' (sum_lines summary),
                        sum_functions := addDimension entry ''functions'' (sum_functions summary),
                        sum_statements := addDimension entry ''statements'' (sum_statements summary),
                        sum_branches := addDimension entry ''branches'' (sum_branches summary)\<rparr>))"

text \<open>Lines 349 to 360.\<close>

definition addCounts :: "coverageStat \<Rightarrow> coverageStat \<Rightarrow> coverageStat" where
  "addCounts s r = s\<lparr>stat_total := numAdd (stat_total s) (stat_total r),
     stat_covered := numAdd (stat_covered s) (stat_covered r),
     stat_skipped := numAdd (stat_skipped s) (stat_skipped r)\<rparr>"

definition addRecursed :: "coverageSums \<Rightarrow> coverageSums \<Rightarrow> coverageSums" where
  "addRecursed summary recursedSummary =
     summary\<lparr>sum_lines := addCounts (sum_lines summary) (sum_lines recursedSummary),
             sum_functions := addCounts (sum_functions summary) (sum_functions recursedSummary),
             sum_statements := addCounts (sum_statements summary) (sum_statements recursedSummary),
             sum_branches := addCounts (sum_branches summary) (sum_branches recursedSummary)\<rparr>"

text \<open>
  \<^verbatim>\<open>Number.EPSILON\<close> and \<^verbatim>\<open>Math.round\<close>: the nearest integer, a half going up, with no
  rounding error (a number from \<open>2\<^sup>5\<^sup>2\<close> on is an integer already).
\<close>

definition EPSILON :: number where
  "EPSILON = Finite (1 / 2 ^ 52)"

definition mathRound :: "number \<Rightarrow> number" where
  "mathRound x = (case x of Finite a \<Rightarrow> Finite (of_int \<lfloor>a + 1 / 2\<rfloor>) | _ \<Rightarrow> x)"

text \<open>
  The right-hand side of one of the lines 363 to 366,
  \<^verbatim>\<open>total == 0 ? 0 : Math.round(((covered / total) + Number.EPSILON) * 10000) / 100\<close>,
  each operation rounding its result.
\<close>

definition computePct :: "coverageStat \<Rightarrow> coverageStat" where
  "computePct s =
     s\<lparr>stat_pct :=
         (if stat_total s = Finite 0 then Finite 0
          else numDiv (mathRound (numMul (numAdd (numDiv (stat_covered s) (stat_total s)) EPSILON)
                                   (Finite 10000)))
                 (Finite 100))\<rparr>"

definition computePcts :: "coverageSums \<Rightarrow> coverageSums" where
  "computePcts summary =
     \<lparr>sum_lines = computePct (sum_lines summary),
      sum_functions = computePct (sum_functions summary),
      sum_statements = computePct (sum_statements summary),
      sum_branches = computePct (sum_branches summary)\<rparr>"

text \<open>
  \<^verbatim>\<open>sumCoverage(obj, recurse)\<close>. \<open>sumObject\<close> and \<open>sumArray\<close> are the loop of line 298
  over the keys of an object and over the indices of an array (an index is never a
  \<^verbatim>\<open>.js\<close> name and never \<^verbatim>\<open>total\<close>). The keys of a string are its indices as well, and
  each of its values is a string of one character, whose first value is itself: with
  \<open>recurse\<close> the call never returns, and the engine throws a RangeError when the stack
  is full.
\<close>

fun sumCoverage :: "json \<Rightarrow> bool \<Rightarrow> coverageSums result"
  and sumObject :: "(string \<times> json) list \<Rightarrow> bool \<Rightarrow> coverageSums \<Rightarrow> coverageSums result"
  and sumArray :: "json list \<Rightarrow> bool \<Rightarrow> coverageSums \<Rightarrow> coverageSums result" where
  "sumCoverage (JObj kvs) recurse =
     (case sumObject kvs recurse zeroSums of Inl err \<Rightarrow> Inl err | Inr s \<Rightarrow> Inr (computePcts s))"
| "sumCoverage (JArr xs) recurse =
     (case sumArray xs recurse zeroSums of Inl err \<Rightarrow> Inl err | Inr s \<Rightarrow> Inr (computePcts s))"
| "sumCoverage (JStr s) recurse =
     (if recurse \<and> s \<noteq> [] then Inl RangeError else Inr (computePcts zeroSums))"
| "sumCoverage JNull recurse = Inr (computePcts zeroSums)"
| "sumCoverage (JBool b) recurse = Inr (computePcts zeroSums)"
| "sumCoverage (JNum n) recurse = Inr (computePcts zeroSums)"
| "sumObject [] recurse summary = Inr summary"
| "sumObject ((entryKey, entry) # rest) recurse summary =
     (if isJsFileRe entryKey
      then (case addEntry entry summary of
              Inl err \<Rightarrow> Inl err
            | Inr s \<Rightarrow> sumObject rest recurse s)
      else if entryKey \<noteq> ''total'' \<and> recurse
      then (case sumCoverage entry recurse of
              Inl err \<Rightarrow> Inl err
            | Inr recursedSummary \<Rightarrow> sumObject rest recurse (addRecursed summary recursedSummary))
      else sumObject rest recurse summary)"
| "sumArray [] recurse summary = Inr summary"
| "sumArray (entry # rest) recurse summary =
     (if recurse
      then (case sumCoverage entry recurse of
              Inl err \<Rightarrow> Inl err
            | Inr recursedSummary \<Rightarrow> sumArray rest recurse (addRecursed summary recursedSummary))
      else sumArray rest recurse summary)"

section \<open>Renderer: \<^verbatim>\<open>addColorToStats\<close> and \<^verbatim>\<open>buildTableDepth\<close>\<close>

text \<open>
  Two conversions of the engine stay parameters, so that every statement below holds
  whatever they return: the string that a template literal makes of a value (a number is
  printed by the binary64 algorithm), and \<^verbatim>\<open>v >= k\<close> for a string, an array or an object
  \<open>v\<close> (which goes through ToPrimitive and StringToNumber). Both may throw.
\<close>

record runtime =
  templateString :: "json option \<Rightarrow> string result"
  coercedGe :: "json \<Rightarrow> rat \<Rightarrow> bool result"

definition GREEN :: string where
  "GREEN = ''147317''"

definition ORANGE :: string where
  "ORANGE = ''c27d15''"

definition RED :: string where
  "RED = ''c23815''"

text \<open>
  \<^verbatim>\<open>v >= k\<close> for a number \<open>k\<close>: \<^verbatim>\<open>undefined\<close> is NaN, \<^verbatim>\<open>null\<close> is 0, and NaN
  compares false.
\<close>

definition greaterEq :: "runtime \<Rightarrow> json option \<Rightarrow> rat \<Rightarrow> bool result" where
  "greaterEq rt v k =
     (case v of
        None \<Rightarrow> Inr False
      | Some JNull \<Rightarrow> Inr (k \<le> 0)
      | Some (JBool b) \<Rightarrow> Inr (k \<le> (if b then 1 else 0))
      | Some (JNum (Finite n)) \<Rightarrow> Inr (k \<le> n)
      | Some (JNum PosInf) \<Rightarrow> Inr True
      | Some (JNum NegInf) \<Rightarrow> Inr False
      | Some (JNum NaN) \<Rightarrow> Inr False
      | Some x \<Rightarrow> coercedGe rt x k)"

text \<open>The chain of lines 168 to 175, for the value of \<^verbatim>\<open>stats[stat].pct\<close>.\<close>

definition statColor :: "runtime \<Rightarrow> json option \<Rightarrow> string result" where
  "statColor rt pct =
     (case greaterEq rt pct 80 of
        Inl err \<Rightarrow> Inl err
      | Inr True \<Rightarrow> Inr GREEN
      | Inr False \<Rightarrow>
          (case greaterEq rt pct 50 of
             Inl err \<Rightarrow> Inl err
           | Inr True \<Rightarrow> Inr ORANGE
           | Inr False \<Rightarrow> Inr RED))"

text \<open>
  One round of the loop of line 167: \<^verbatim>\<open>stats[stat].pct\<close> throws unless \<open>stats\<close> is an
  object whose property \<open>stat\<close> is neither missing nor \<^verbatim>\<open>null\<close>; the colour is written
  into \<^verbatim>\<open>stats[stat]\<close>.
\<close>

definition colorStat :: "runtime \<Rightarrow> json \<Rightarrow> string \<Rightarrow> json result" where
  "colorStat rt stats stat =
     (case stats of
        JObj kvs \<Rightarrow>
          (case map_of kvs stat of
             None \<Rightarrow> Inl TypeError
           | Some JNull \<Rightarrow> Inl TypeError
           | Some s \<Rightarrow>
               (case statColor rt (get_prop s ''pct'') of
                  Inl err \<Rightarrow> Inl err
                | Inr c \<Rightarrow>
                    (case set_prop s ''color'' (JStr c) of
                       Inl err \<Rightarrow> Inl err
                     | Inr s' \<Rightarrow> Inr (JObj (AList.update stat s' kvs)))))
      | _ \<Rightarrow> Inl TypeError)"

definition statsToProcess :: "string list" where
  "statsToProcess = [''statements'', ''branches'', ''functions'', ''lines'']"

fun colorStats :: "runtime \<Rightarrow> string list \<Rightarrow> json \<Rightarrow> json result" where
  "colorStats rt [] stats = Inr stats"
| "colorStats rt (stat # rest) stats =
     (case colorStat rt stats stat of Inl err \<Rightarrow> Inl err | Inr stats' \<Rightarrow> colorStats rt rest stats')"

definition addColorToStats :: "runtime \<Rightarrow> json \<Rightarrow> json result" where
  "addColorToStats rt stats = colorStats rt statsToProcess stats"

text \<open>The object that \<^verbatim>\<open>sumCoverage\<close> returns, as a value.\<close>

definition statJson :: "coverageStat \<Rightarrow> json" where
  "statJson s = JObj [(''total'', JNum (stat_total s)), (''covered'', JNum (stat_covered s)),
     (''skipped'', JNum (stat_skipped s)), (''pct'', JNum (stat_pct s))]"

definition sumsJson :: "coverageSums \<Rightarrow> json" where
  "sumsJson s = JObj [(''lines'', statJson (sum_lines s)), (''functions'', statJson (sum_functions s)),
     (''statements'', statJson (sum_statements s)), (''branches'', statJson (sum_branches s))]"

text \<open>\<^verbatim>\<open>${x.stat.color}\<close> and \<^verbatim>\<open>${x.stat.pct}\<close> in a template.\<close>

definition statField :: "runtime \<Rightarrow> json \<Rightarrow> string \<Rightarrow> string \<Rightarrow> string result" where
  "statField rt x stat f =
     (case get_prop x stat of
        None \<Rightarrow> Inl TypeError
      | Some JNull \<Rightarrow> Inl TypeError
      | Some s \<Rightarrow> templateString rt (get_prop s f))"

text \<open>
  \<^verbatim>\<open>![${x.stat.pct}](https://img.shields.io/badge/${x.stat.pct}-${x.stat.color}?style=for-the-badge)|\<close>
\<close>

definition pctBadge :: "runtime \<Rightarrow> json \<Rightarrow> string \<Rightarrow> string result" where
  "pctBadge rt x stat =
     (case statField rt x stat ''pct'' of
        Inl err \<Rightarrow> Inl err
      | Inr pct \<Rightarrow>
          (case statField rt x stat ''color'' of
             Inl err \<Rightarrow> Inl err
           | Inr color \<Rightarrow>
               Inr (''!['' @ pct @ ''](https://img.shields.io/badge/'' @ pct @ ''-'' @ color
                    @ ''?style=for-the-badge)|'')))"

fun pctBadges :: "runtime \<Rightarrow> json \<Rightarrow> string list \<Rightarrow> string result" where
  "pctBadges rt x [] = Inr []"
| "pctBadges rt x (stat # rest) =
     (case pctBadge rt x stat of
        Inl err \<Rightarrow> Inl err
      | Inr b \<Rightarrow> (case pctBadges rt x rest of Inl err \<Rightarrow> Inl err | Inr bs \<Rightarrow> Inr (b @ bs)))"

text \<open>
  The row of lines 237 and 258: the name badge with the colour of the statements, the
  four percentage badges, the badges of the uncovered ranges, a newline. \<open>label\<close> is the
  text between the square brackets, \<open>name\<close> the text in the address.
\<close>

definition badgeRow :: "runtime \<Rightarrow> string \<Rightarrow> string \<Rightarrow> json \<Rightarrow> string \<Rightarrow> string result" where
  "badgeRow rt label name x uncoveredLines =
     (case statField rt x ''statements'' ''color'' of
        Inl err \<Rightarrow> Inl err
      | Inr color \<Rightarrow>
          (case pctBadges rt x statsToProcess of
             Inl err \<Rightarrow> Inl err
           | Inr badges \<Rightarrow>
               Inr (''!['' @ label @ ''](https://img.shields.io/badge/'' @ name @ ''-'' @ color
                    @ ''?style=for-the-badge)|'' @ badges @ uncoveredLines @ [CHR 0x0A])))"

text \<open>Lines 198 to 204: the header and the row of the total, which is coloured in place.\<close>

definition tableHeader :: string where
  "tableHeader = ''File|% Stmts|% Branch|% Funcs|% Lines|Uncovered Line #s'' @ [CHR 0x0A]
     @ ''----|-------|--------|-------|-------|-----------------'' @ [CHR 0x0A]"

definition totalRows :: "runtime \<Rightarrow> json option \<Rightarrow> (string \<times> json option) result" where
  "totalRows rt tot =
     (case tot of
        None \<Rightarrow> Inr ([], None)
      | Some t \<Rightarrow>
          if truthy t
          then (case addColorToStats rt t of
                  Inl err \<Rightarrow> Inl err
                | Inr totalColored \<Rightarrow>
                    (case badgeRow rt ''All files'' ''All%20files'' totalColored [] of
                       Inl err \<Rightarrow> Inl err
                     | Inr row \<Rightarrow> Inr (tableHeader @ row, Some totalColored)))
          else Inr ([], Some t))"

text \<open>Lines 227 to 230: \<^verbatim>\<open>line.replace\<close> throws unless the element is a string.\<close>

fun uncoveredBadges :: "json list \<Rightarrow> string result" where
  "uncoveredBadges [] = Inr []"
| "uncoveredBadges (JStr line # rest) =
     (case uncoveredBadges rest of
        Inl err \<Rightarrow> Inl err
      | Inr others \<Rightarrow>
          Inr (''!['' @ line @ ''](https://img.shields.io/badge/'' @ replaceFirst ''-'' ''--'' line
               @ ''-'' @ RED @ ''?style=for-the-badge)&nbsp;'' @ others))"
| "uncoveredBadges (v # rest) = Inl TypeError"

definition indentOf :: "nat \<Rightarrow> string" where
  "indentOf depth = concat (replicate (depth * 2) ''&nbsp;'')"

definition fileKeyCharsReplaced :: "string \<Rightarrow> string" where
  "fileKeyCharsReplaced fileKey = replaceFirst ''-'' ''--'' (replaceFirst '' '' ''_'' fileKey)"

text \<open>Lines 213 to 238: the row of a file; the entry is coloured in place.\<close>

definition fileRow :: "runtime \<Rightarrow> string \<Rightarrow> json \<Rightarrow> nat \<Rightarrow> (string \<times> json) result" where
  "fileRow rt fileKey fileEntry depth =
     (case addColorToStats rt fileEntry of
        Inl err \<Rightarrow> Inl err
      | Inr fileEntryColored \<Rightarrow>
          (case (case get_prop fileEntryColored ''uncovered'' of
                   Some (JArr ls) \<Rightarrow> uncoveredBadges ls
                 | _ \<Rightarrow> Inr []) of
             Inl err \<Rightarrow> Inl err
           | Inr uncoveredLines \<Rightarrow>
               (case badgeRow rt fileKey (fileKeyCharsReplaced fileKey) fileEntryColored
                       uncoveredLines of
                  Inl err \<Rightarrow> Inl err
                | Inr row \<Rightarrow> Inr (indentOf depth @ row, fileEntryColored))))"

text \<open>Lines 241 to 259: the row of a directory, from fresh sums.\<close>

definition directoryRow :: "runtime \<Rightarrow> string \<Rightarrow> json \<Rightarrow> nat \<Rightarrow> string result" where
  "directoryRow rt fileKey fileEntry depth =
     (case sumCoverage fileEntry False of
        Inl err \<Rightarrow> Inl err
      | Inr dirSums \<Rightarrow>
          (case addColorToStats rt (sumsJson dirSums) of
             Inl err \<Rightarrow> Inl err
           | Inr sumsColored \<Rightarrow>
               (case badgeRow rt fileKey (fileKeyCharsReplaced fileKey) sumsColored [] of
                  Inl err \<Rightarrow> Inl err
                | Inr row \<Rightarrow> Inr (indentOf depth @ row))))"

text \<open>
  \<^verbatim>\<open>buildTableDepth(total, files, depth)\<close> returns the table and changes \<^verbatim>\<open>total\<close> and
  \<^verbatim>\<open>files\<close> in place; the model returns all three. \<open>fileRows\<close> and \<open>elementRows\<close> are the
  loop of line 207 over the keys of an object and over the indices of an array. On a string
  that is not empty the loop builds the row of index 0 and then calls itself on a string
  of one character, for ever.
\<close>

fun buildTableDepth :: "runtime \<Rightarrow> json option \<Rightarrow> json \<Rightarrow> nat \<Rightarrow> (string \<times> json option \<times> json) result"
  and fileRows :: "runtime \<Rightarrow> (string \<times> json) list \<Rightarrow> nat \<Rightarrow> (string \<times> (string \<times> json) list) result"
  and elementRows :: "runtime \<Rightarrow> json list \<Rightarrow> nat \<Rightarrow> nat \<Rightarrow> (string \<times> json list) result" where
  "buildTableDepth rt tot (JObj kvs) depth =
     (case totalRows rt tot of
        Inl err \<Rightarrow> Inl err
      | Inr (table, tot') \<Rightarrow>
          (case fileRows rt kvs (if depth \<le> 0 then 1 else depth) of
             Inl err \<Rightarrow> Inl err
           | Inr (rows, kvs') \<Rightarrow> Inr (table @ rows, tot', JObj kvs')))"
| "buildTableDepth rt tot (JArr xs) depth =
     (case totalRows rt tot of
        Inl err \<Rightarrow> Inl err
      | Inr (table, tot') \<Rightarrow>
          (case elementRows rt xs 0 (if depth \<le> 0 then 1 else depth) of
             Inl err \<Rightarrow> Inl err
           | Inr (rows, xs') \<Rightarrow> Inr (table @ rows, tot', JArr xs')))"
| "buildTableDepth rt tot (JStr s) depth =
     (case totalRows rt tot of
        Inl err \<Rightarrow> Inl err
      | Inr (table, tot') \<Rightarrow>
          (if s = [] then Inr (table, tot', JStr s)
           else (case directoryRow rt ''0'' (JStr [hd s]) (if depth \<le> 0 then 1 else depth) of
                   Inl err \<Rightarrow> Inl err
                 | Inr row \<Rightarrow> Inl RangeError)))"
| "buildTableDepth rt tot JNull depth =
     (case totalRows rt tot of
        Inl err \<Rightarrow> Inl err
      | Inr (table, tot') \<Rightarrow> Inr (table, tot', JNull))"
| "buildTableDepth rt tot (JBool b) depth =
     (case totalRows rt tot of
        Inl err \<Rightarrow> Inl err
      | Inr (table, tot') \<Rightarrow> Inr (table, tot', JBool b))"
| "buildTableDepth rt tot (JNum n) depth =
     (case totalRows rt tot of
        Inl err \<Rightarrow> Inl err
      | Inr (table, tot') \<Rightarrow> Inr (table, tot', JNum n))"
| "fileRows rt [] depth = Inr ([], [])"
| "fileRows rt ((fileKey, fileEntry) # rest) depth =
     (case (if isJsFileRe fileKey then fileRow rt fileKey fileEntry depth
            else (case directoryRow rt fileKey fileEntry depth of
                    Inl err \<Rightarrow> Inl err
                  | Inr row \<Rightarrow>
                      (case buildTableDepth rt None fileEntry (depth + 1) of
                         Inl err \<Rightarrow> Inl err
                       | Inr (sub, none, fileEntry') \<Rightarrow> Inr (row @ sub, fileEntry')))) of
        Inl err \<Rightarrow> Inl err
      | Inr (rows, fileEntry') \<Rightarrow>
          (case fileRows rt rest depth of
             Inl err \<Rightarrow> Inl err
           | Inr (others, rest') \<Rightarrow> Inr (rows @ others, (fileKey, fileEntry') # rest')))"
| "elementRows rt [] i depth = Inr ([], [])"
| "elementRows rt (fileEntry # rest) i depth =
     (case directoryRow rt (showNat i) fileEntry depth of
        Inl err \<Rightarrow> Inl err
      | Inr row \<Rightarrow>
          (case buildTableDepth rt None fileEntry (depth + 1) of
             Inl err \<Rightarrow> Inl err
           | Inr (sub, none, fileEntry') \<Rightarrow>
               (case elementRows rt rest (i + 1) depth of
                  Inl err \<Rightarrow> Inl err
                | Inr (others, rest') \<Rightarrow> Inr (row @ sub @ others, fileEntry' # rest'))))"

text \<open>\<^verbatim>\<open>buildTable\<close>, line 182.\<close>

definition buildTable :: "runtime \<Rightarrow> json option \<Rightarrow> json \<Rightarrow> (string \<times> json option \<times> json) result" where
  "buildTable rt tot files = buildTableDepth rt tot files 0"

section \<open>The \<^verbatim>\<open>close\<close> handler and the run of the program\<close>

definition mdComment :: "string \<Rightarrow> string" where
  "mdComment table =
     ''Testing has completed, a summary of the code coverage results is provided below.''
     @ [CHR 0x0A, CHR 0x0A] @ ''<details>'' @ [CHR 0x0A, CHR 0x0A]
     @ ''<summary>Code coverage summary</summary>'' @ [CHR 0x0A, CHR 0x0A]
     @ table @ [CHR 0x0A] @ ''</details>'' @ [CHR 0x0A]"

text \<open>
  Lines 100 to 147. The handler reads \<^verbatim>\<open>jsonSummary\<close> and none of the four variables of
  the parser: a range that is open when the stream ends stays where it is.
\<close>

definition closeTree :: "(string \<times> json) list \<Rightarrow> (json option \<times> (string \<times> json) list) result" where
  "closeTree js =
     (case divideAll [] js of
        Inl err \<Rightarrow> Inl err
      | Inr d \<Rightarrow> Inr (totalSummary d, filesSummary d))"

definition onClose :: "runtime \<Rightarrow> parser \<Rightarrow> string result" where
  "onClose rt st =
     (case closeTree (jsonSummary st) of
        Inl err \<Rightarrow> Inl err
      | Inr (tot, files) \<Rightarrow>
          (case buildTable rt tot (JObj files) of
             Inl err \<Rightarrow> Inl err
           | Inr (table, tot', files') \<Rightarrow> Inr (mdComment table)))"

text \<open>
  The run on a summary as loaded and the lines of the trace: every line, then the end of
  the stream.
\<close>

definition parseTrace :: "(string \<times> json) list \<Rightarrow> string list \<Rightarrow> parser result" where
  "parseTrace js ls = readLines (initialParser js) ls"

definition report :: "runtime \<Rightarrow> (string \<times> json) list \<Rightarrow> string list \<Rightarrow> string result" where
  "report rt js ls =
     (case parseTrace js ls of Inl err \<Rightarrow> Inl err | Inr st \<Rightarrow> onClose rt st)"

text \<open>The tree that the \<^verbatim>\<open>close\<close> handler builds at the end of a trace.\<close>

definition treeOfTrace :: "(string \<times> json) list \<Rightarrow> string list \<Rightarrow> (json option \<times> (string \<times> json) list) result" where
  "treeOfTrace js ls =
     (case parseTrace js ls of Inl err \<Rightarrow> Inl err | Inr st \<Rightarrow> closeTree (jsonSummary st))"

section \<open>Observations used in the statements\<close>

text \<open>
  The uncovered sequence of the entry under the key \<open>k\<close> of a summary (empty when the
  entry or the field is missing or is no array), and a property of that entry.
\<close>

definition uncoveredOf :: "(string \<times> json) list \<Rightarrow> string \<Rightarrow> json list" where
  "uncoveredOf js k =
     (case map_of js k of
        Some e \<Rightarrow> (case get_prop e ''uncovered'' of Some (JArr xs) \<Rightarrow> xs | _ \<Rightarrow> [])
      | None \<Rightarrow> [])"

text \<open>
  The summaries that lines 87 to 93 extend under the key \<open>k\<close>: the key has no entry and
  is no inherited name, or its entry is falsy (line 88 replaces it), or its entry is an
  object whose \<^verbatim>\<open>uncovered\<close> is missing, falsy or an array.
\<close>

definition acceptsRange :: "(string \<times> json) list \<Rightarrow> string \<Rightarrow> bool" where
  "acceptsRange js k =
     (case map_of js k of
        None \<Rightarrow> \<not> inherited k
      | Some (JObj kvs) \<Rightarrow>
          (case map_of kvs ''uncovered'' of
             None \<Rightarrow> True
           | Some (JArr xs) \<Rightarrow> True
           | Some u \<Rightarrow> \<not> truthy u)
      | Some e \<Rightarrow> \<not> truthy e)"


text \<open>
  The aggregate as the specification words it. \<open>fieldOf\<close> is what the field \<open>f\<close> of the
  dimension \<open>name\<close> of one entry contributes: its number, and nothing when the dimension
  or the field is missing or is no number. \<open>counted\<close> lists the contributions of the
  entries whose key matches the name pattern of a source file, in the order of the keys,
  and \<open>sumOver\<close> adds them up from zero in the arithmetic of the program.
  \<open>aggregateOf\<close> is the CoverageStat of one dimension, its percentage computed from the
  two sums and rounded to two decimal places with the small epsilon.
\<close>

definition fieldOf :: "json \<Rightarrow> string \<Rightarrow> string \<Rightarrow> number option" where
  "fieldOf entry name f =
     (case get_prop entry name of
        None \<Rightarrow> None
      | Some d \<Rightarrow> if truthy d then (case get_prop d f of Some (JNum n) \<Rightarrow> Some n | _ \<Rightarrow> None)
                  else None)"

definition counted :: "(string \<times> json) list \<Rightarrow> string \<Rightarrow> string \<Rightarrow> number list" where
  "counted kvs name f =
     List.map_filter (\<lambda>(k, entry). if isJsFileRe k then fieldOf entry name f else None) kvs"

definition sumOver :: "(string \<times> json) list \<Rightarrow> string \<Rightarrow> string \<Rightarrow> number" where
  "sumOver kvs name f = foldl numAdd (Finite 0) (counted kvs name f)"

definition aggregateOf :: "(string \<times> json) list \<Rightarrow> string \<Rightarrow> coverageStat" where
  "aggregateOf kvs name =
     \<lparr>stat_total = sumOver kvs name ''total'',
      stat_covered = sumOver kvs name ''covered'',
      stat_skipped = sumOver kvs name ''skipped'',
      stat_pct = (if sumOver kvs name ''total'' = Finite 0 then Finite 0
                  else numDiv (mathRound (numMul
                         (numAdd (numDiv (sumOver kvs name ''covered'') (sumOver kvs name ''total''))
                            (Finite (1 / 2 ^ 52)))
                         (Finite 10000))) (Finite 100))\<rparr>"

text \<open>
  A count is a number that is a natural number. \<open>exactSum\<close> is the sum of the
  contributions as a rational, with no rounding.
\<close>

definition isCount :: "number \<Rightarrow> bool" where
  "isCount n = (case n of Finite r \<Rightarrow> 0 \<le> r \<and> r = of_int \<lfloor>r\<rfloor> | _ \<Rightarrow> False)"

definition valueOf :: "number \<Rightarrow> rat" where
  "valueOf n = (case n of Finite r \<Rightarrow> r | _ \<Rightarrow> 0)"

definition exactSum :: "(string \<times> json) list \<Rightarrow> string \<Rightarrow> string \<Rightarrow> rat" where
  "exactSum kvs name f = sum_list (map valueOf (counted kvs name f))"

text \<open>The counts of a CoverageStat with the contributions of \<open>kvs\<close> added, for the proofs.\<close>

definition plusStat :: "coverageStat \<Rightarrow> (string \<times> json) list \<Rightarrow> string \<Rightarrow> coverageStat" where
  "plusStat s kvs name =
     s\<lparr>stat_total := foldl numAdd (stat_total s) (counted kvs name ''total''),
       stat_covered := foldl numAdd (stat_covered s) (counted kvs name ''covered''),
       stat_skipped := foldl numAdd (stat_skipped s) (counted kvs name ''skipped'')\<rparr>"

text \<open>
  The colour of a percentage as the specification words it: good from 80, warning from 50,
  bad below.
\<close>

definition colorOfPct :: "number \<Rightarrow> string" where
  "colorOfPct p =
     (case p of
        Finite r \<Rightarrow> if 80 \<le> r then GREEN else if 50 \<le> r then ORANGE else RED
      | PosInf \<Rightarrow> GREEN
      | _ \<Rightarrow> RED)"

text \<open>What the tree holds under a directory key and a file key.\<close>

definition treeLookup :: "(string \<times> json) list \<Rightarrow> string \<Rightarrow> string \<Rightarrow> json option" where
  "treeLookup files d b = (case map_of files d of Some t \<Rightarrow> get_prop t b | None \<Rightarrow> None)"

text \<open>
  A statistic with its colour written beside its percentage: an object gets the property
  \<^verbatim>\<open>color\<close>, a primitive value stays what it is (the write is dropped).
\<close>

definition withColor :: "runtime \<Rightarrow> json \<Rightarrow> json" where
  "withColor rt s =
     (case s of
        JObj ps \<Rightarrow>
          (case statColor rt (map_of ps ''pct'') of
             Inr c \<Rightarrow> JObj (AList.update ''color'' (JStr c) ps)
           | Inl err \<Rightarrow> s)
      | _ \<Rightarrow> s)"

text \<open>
  What rendering makes of one entry of the tree at the depth \<open>depth\<close>: an entry under a
  \<^verbatim>\<open>.js\<close> key is what \<^verbatim>\<open>addColorToStats\<close> returns for it, any other entry is what
  \<^verbatim>\<open>buildTableDepth\<close> without a total leaves of it one level down.
\<close>

definition renderedEntry :: "runtime \<Rightarrow> nat \<Rightarrow> string \<times> json \<Rightarrow> string \<times> json \<Rightarrow> bool" where
  "renderedEntry rt depth old new =
     (fst new = fst old
      \<and> (if isJsFileRe (fst old) then addColorToStats rt (snd old) = Inr (snd new)
         else (\<exists>sub. buildTableDepth rt None (snd old) (depth + 1) = Inr (sub, None, snd new))))"

text \<open>A value without the properties named \<^verbatim>\<open>color\<close>, at every depth.\<close>

fun eraseColor :: "json \<Rightarrow> json"
  and eraseColorProps :: "(string \<times> json) list \<Rightarrow> (string \<times> json) list"
  and eraseColorElems :: "json list \<Rightarrow> json list" where
  "eraseColor (JObj kvs) = JObj (eraseColorProps kvs)"
| "eraseColor (JArr xs) = JArr (eraseColorElems xs)"
| "eraseColor JNull = JNull"
| "eraseColor (JBool b) = JBool b"
| "eraseColor (JNum n) = JNum n"
| "eraseColor (JStr s) = JStr s"
| "eraseColorProps [] = []"
| "eraseColorProps ((k, v) # kvs) =
     (if k = ''color'' then eraseColorProps kvs else (k, eraseColor v) # eraseColorProps kvs)"
| "eraseColorElems [] = []"
| "eraseColorElems (x # xs) = eraseColor x # eraseColorElems xs"

text \<open>
  The writes of the loop of line 106, for the proofs: for every key other than
  \<^verbatim>\<open>total\<close> the pair of directory key and file key, with the value stored under it.
\<close>

definition treeEntries :: "(string \<times> json) list \<Rightarrow> ((string \<times> string) \<times> json) list" where
  "treeEntries js =
     map (\<lambda>(p, v). ((pathWithoutFile p, lastSlice p), v)) (filter (\<lambda>(p, v). p \<noteq> ''total'') js)"

text \<open>Every directory key of the tree under construction holds an object.\<close>

definition directoriesAreObjects :: "(string \<times> json) list \<Rightarrow> bool" where
  "directoriesAreObjects d =
     (\<forall>k. k \<noteq> ''total'' \<longrightarrow> map_of d k = None \<or> (\<exists>kvs. map_of d k = Some (JObj kvs)))"

section \<open>Lemmas on the \<^verbatim>\<open>line\<close> handler\<close>

lemma map_of_update: "map_of (AList.update k v al) k' = (if k' = k then Some v else map_of al k')"
  by (simp add: update_conv')

lemma get_prop_falsy: "\<not> truthy v \<Longrightarrow> get_prop v p = None"
  by (cases v) auto

lemma update_absent: "map_of al k = None \<Longrightarrow> AList.update k v al = al @ [(k, v)]"
  by (induction al) (auto split: if_splits)

lemma recordRange_inherited:
  "map_of js k = None \<Longrightarrow> inherited k \<Longrightarrow> k \<noteq> ''__proto__'' \<Longrightarrow> recordRange js k s = Inr js"
  by (simp add: recordRange_def)

lemma recordRange_cases:
  assumes "recordRange js k s = Inr js'"
  shows "(map_of js k = None \<and> inherited k \<and> k \<noteq> ''__proto__'' \<and> js' = js)
       \<or> (\<not> (map_of js k = None \<and> inherited k) \<and> \<not> truthy_opt (map_of js k) \<and>
            js' = AList.update k (JObj [(''uncovered'', JArr [JStr s])]) (AList.update k (JObj []) js))
       \<or> (\<exists>kvs. map_of js k = Some (JObj kvs) \<and>
            js' = AList.update k (JObj (AList.update ''uncovered'' (JArr (uncoveredOf js k @ [JStr s])) kvs)) js)"
proof (cases "map_of js k = None \<and> inherited k")
  case True
  with assms show ?thesis by (auto simp: recordRange_def split: if_splits)
next
  case ni: False
  show ?thesis
  proof (cases "truthy_opt (map_of js k)")
    case False
    with assms ni show ?thesis
      by (auto simp: recordRange_def map_of_update truthy_opt_def split: if_splits option.splits)
  next
    case True
    then obtain e where e: "map_of js k = Some e" "truthy e"
      by (auto simp: truthy_opt_def split: option.splits)
    show ?thesis
    proof (cases e)
      case (JObj kvs)
      with assms e show ?thesis
        by (auto simp: recordRange_def map_of_update truthy_opt_def uncoveredOf_def
            split: if_splits option.splits json.splits sum.splits)
    qed (use assms e in \<open>auto simp: recordRange_def truthy_opt_def split: if_splits\<close>)
  qed
qed

lemma recordRange_uncovered:
  "recordRange js k s = Inr js' \<Longrightarrow> \<not> (map_of js k = None \<and> inherited k) \<Longrightarrow>
   uncoveredOf js' k = uncoveredOf js k @ [JStr s]"
  by (drule recordRange_cases)
     (auto simp: uncoveredOf_def map_of_update truthy_opt_def get_prop_falsy split: option.splits)

lemma recordRange_other:
  "recordRange js k s = Inr js' \<Longrightarrow> k' \<noteq> k \<Longrightarrow> map_of js' k' = map_of js k'"
  by (drule recordRange_cases) (auto simp: map_of_update)


lemma recordRange_absent:
  "map_of js k = None \<Longrightarrow> \<not> inherited k \<Longrightarrow>
   recordRange js k s = Inr (js @ [(k, JObj [(''uncovered'', JArr [JStr s])])])"
proof -
  assume a: "map_of js k = None" and i: "\<not> inherited k"
  have 1: "AList.update k (JObj []) js = js @ [(k, JObj [])]"
    using a by (rule update_absent)
  have 2: "map_of (js @ [(k, JObj [])]) k = Some (JObj [])"
    using a by (simp add: map_add_def)
  have 3: "AList.update k v (js @ [(k, w)]) = js @ [(k, v)]" for v w
    using a by (induction js) (auto split: if_splits)
  show ?thesis
    unfolding recordRange_def using a i by (simp add: truthy_opt_def 1 3 map_add_def)
qed

lemma recordRange_keys:
  "recordRange js k s = Inr js' \<Longrightarrow> map_of js k' \<noteq> None \<Longrightarrow> map_of js' k' \<noteq> None"
  by (drule recordRange_cases) (auto simp: map_of_update)

lemma recordRange_returns:
  assumes "acceptsRange js k"
  shows "\<exists>js'. recordRange js k s = Inr js'"
proof (cases "map_of js k")
  case None
  with assms have "\<not> inherited k" by (simp add: acceptsRange_def)
  from recordRange_absent [OF None this] show ?thesis by blast
next
  case (Some e)
  show ?thesis
  proof (cases "truthy e")
    case False
    with Some show ?thesis
      by (simp add: recordRange_def truthy_opt_def map_of_update)
  next
    case True
    with assms Some obtain kvs where e: "e = JObj kvs"
      by (cases e) (auto simp: acceptsRange_def)
    show ?thesis
    proof (cases "map_of kvs ''uncovered''")
      case None
      with Some e show ?thesis by (simp add: recordRange_def truthy_opt_def map_of_update)
    next
      case u: (Some u)
      show ?thesis
      proof (cases "truthy u")
        case False
        with Some e u show ?thesis by (simp add: recordRange_def truthy_opt_def map_of_update)
      next
        case True
        with assms Some e u obtain xs where "u = JArr xs"
          by (cases u) (auto simp: acceptsRange_def)
        with Some e u show ?thesis by (simp add: recordRange_def truthy_opt_def)
      qed
    qed
  qed
qed

lemma acceptsRange_not_inherited: "acceptsRange js k \<Longrightarrow> \<not> (map_of js k = None \<and> inherited k)"
  by (auto simp: acceptsRange_def)


lemma onLine_SF: "reSF l = Some f \<Longrightarrow> onLine st l = Inr (st\<lparr>filename := Some f\<rparr>)"
  by (simp add: onLine_def)

lemma onLine_open:
  "reSF l = None \<Longrightarrow> reDA l = Some n \<Longrightarrow> \<not> isRecordingUncovered st \<Longrightarrow>
   onLine st l = Inr (st\<lparr>isRecordingUncovered := True, uncoveredBeginning := n, uncoveredEnd := n\<rparr>)"
  by (simp add: onLine_def)

lemma onLine_extend:
  "reSF l = None \<Longrightarrow> reDA l = Some n \<Longrightarrow> isRecordingUncovered st \<Longrightarrow>
   onLine st l = Inr (st\<lparr>uncoveredEnd := n\<rparr>)"
  by (simp add: onLine_def)

lemma onLine_close:
  "reSF l = None \<Longrightarrow> reDA l = None \<Longrightarrow> isRecordingUncovered st \<Longrightarrow>
   onLine st l =
     (case recordRange (jsonSummary st) (propertyKey (filename st))
             (uncoveredString (uncoveredBeginning st) (uncoveredEnd st)) of
        Inl err \<Rightarrow> Inl err
      | Inr js \<Rightarrow> Inr (st\<lparr>jsonSummary := js, isRecordingUncovered := False\<rparr>))"
  by (simp add: onLine_def)

lemma onLine_idle:
  "reSF l = None \<Longrightarrow> reDA l = None \<Longrightarrow> \<not> isRecordingUncovered st \<Longrightarrow> onLine st l = Inr st"
  by (simp add: onLine_def)



lemma onLine_section:
  "onLine st l = Inr st' \<Longrightarrow> reSF l = None \<Longrightarrow>
   filename st' = filename st \<and>
   (k \<noteq> propertyKey (filename st) \<longrightarrow> map_of (jsonSummary st') k = map_of (jsonSummary st) k)"
  by (auto simp: onLine_def recordRange_other split: option.splits if_splits sum.splits)

lemma readLines_section:
  "readLines st ls = Inr st' \<Longrightarrow> \<forall>x\<in>set ls. reSF x = None \<Longrightarrow>
   filename st' = filename st \<and>
   (k \<noteq> propertyKey (filename st) \<longrightarrow> map_of (jsonSummary st') k = map_of (jsonSummary st) k)"
proof (induction ls arbitrary: st)
  case Nil
  then show ?case by simp
next
  case (Cons l ls)
  then obtain st1 where s1: "onLine st l = Inr st1" and s2: "readLines st1 ls = Inr st'"
    by (auto split: sum.splits)
  from Cons.prems(2) have nl: "reSF l = None" and nls: "\<forall>x\<in>set ls. reSF x = None"
    by simp_all
  from onLine_section [OF s1 nl, of k] Cons.IH [OF s2 nls]
  show ?case by simp
qed

lemma readLines_append:
  "readLines st (xs @ ys) = (case readLines st xs of Inl err \<Rightarrow> Inl err | Inr st1 \<Rightarrow> readLines st1 ys)"
  by (induction xs arbitrary: st) (auto split: sum.splits)

lemma readLines_uncovered_run:
  "ls \<noteq> [] \<Longrightarrow> \<forall>x\<in>set ls. reSF x = None \<and> reDA x \<noteq> None \<Longrightarrow>
   reDA (hd ls) = Some b \<Longrightarrow> reDA (last ls) = Some e \<Longrightarrow>
   readLines st ls = Inr (st\<lparr>isRecordingUncovered := True,
      uncoveredBeginning := (if isRecordingUncovered st then uncoveredBeginning st else b),
      uncoveredEnd := e\<rparr>)"
proof (induction ls arbitrary: st b)
  case Nil
  then show ?case by simp
next
  case (Cons l ls)
  from Cons.prems have l: "reSF l = None" "reDA l = Some b" by simp_all
  show ?case
  proof (cases "ls = []")
    case True
    with l Cons.prems show ?thesis
      by (cases "isRecordingUncovered st") (simp_all add: onLine_open onLine_extend)
  next
    case False
    then obtain b' where b': "reDA (hd ls) = Some b'"
      using Cons.prems(2) by (cases ls) auto
    have rest: "\<forall>x\<in>set ls. reSF x = None \<and> reDA x \<noteq> None" using Cons.prems(2) by simp
    have lst: "reDA (last ls) = Some e" using Cons.prems(4) False by simp
    show ?thesis
      using l Cons.IH [OF False rest b' lst]
      by (cases "isRecordingUncovered st") (simp_all add: onLine_open onLine_extend)
  qed
qed

section \<open>Lemmas on the numbers\<close>

lemma roundEven_of_int: "roundEven (of_int k) = k"
  by (simp add: roundEven_def)

lemma quotient_of_pos:
  assumes "0 < (x::rat)" and "quotient_of x = (p, q)"
  shows "0 < p" "0 < q" "x = of_int p / of_int q"
proof -
  show q: "0 < q" using assms(2) by (rule quotient_of_denom_pos)
  show x: "x = of_int p / of_int q" using assms(2) by (rule quotient_of_div)
  show "0 < p" using assms(1) q x by (simp add: zero_less_divide_iff)
qed

lemma exponentOf_lower:
  assumes "x \<noteq> 0"
  shows "power_int 2 (exponentOf x) \<le> \<bar>x\<bar>"
proof -
  obtain p q where pq: "quotient_of \<bar>x\<bar> = (p, q)" by (cases "quotient_of \<bar>x\<bar>")
  from assms have "0 < \<bar>x\<bar>" by simp
  note f = quotient_of_pos [OF this pq]
  let ?d = "bitlen p - bitlen q"
  show ?thesis
  proof (cases "power_int 2 ?d \<le> \<bar>x\<bar>")
    case True
    then show ?thesis by (simp add: exponentOf_def pq)
  next
    case False
    then have e: "exponentOf x = ?d - 1" by (simp add: exponentOf_def pq)
    from bitlen_bounds [OF f(1)] have lo: "(2::int) ^ nat (bitlen p - 1) \<le> p"
      and hip: "p < (2::int) ^ nat (bitlen p)" by simp_all
    from bitlen_bounds [OF f(2)] have hi: "q < (2::int) ^ nat (bitlen q)" by simp
    have bp: "0 < bitlen p"
    proof (rule ccontr)
      assume "\<not> 0 < bitlen p"
      then have "nat (bitlen p) = 0" by simp
      with hip f(1) show False by simp
    qed
    have bq: "0 < bitlen q"
    proof (rule ccontr)
      assume "\<not> 0 < bitlen q"
      then have "nat (bitlen q) = 0" by simp
      with hi f(2) show False by simp
    qed
    have "power_int (2::rat) (?d - 1) = power_int 2 (bitlen p - 1) / power_int 2 (bitlen q)"
      by (simp add: power_int_diff)
    also have "\<dots> = 2 ^ nat (bitlen p - 1) / 2 ^ nat (bitlen q)"
      using bp bq by (simp add: power_int_def)
    also have "\<dots> \<le> of_int p / of_int q"
    proof (rule frac_le)
      show "(0::rat) \<le> of_int p" using f(1) by simp
      have "(of_int ((2::int) ^ nat (bitlen p - 1)) :: rat) \<le> of_int p" using lo by (simp only: of_int_le_iff)
      then show "(2::rat) ^ nat (bitlen p - 1) \<le> of_int p" by simp
      show "(0::rat) < of_int q" using f(2) by simp
      have "(of_int q :: rat) \<le> of_int ((2::int) ^ nat (bitlen q))" using hi by (simp only: of_int_le_iff)
      then show "(of_int q :: rat) \<le> 2 ^ nat (bitlen q)" by simp
    qed
    also have "\<dots> = \<bar>x\<bar>" using f(3) by simp
    finally show ?thesis by (simp add: e)
  qed
qed

lemma exponentOf_le:
  assumes "x \<noteq> 0" and "\<bar>x\<bar> \<le> 2 ^ n"
  shows "exponentOf x \<le> int n"
proof (rule ccontr)
  assume "\<not> exponentOf x \<le> int n"
  then have "int n + 1 \<le> exponentOf x" by simp
  then have "power_int (2::rat) (int n + 1) \<le> power_int 2 (exponentOf x)"
    by (intro power_int_increasing) simp_all
  also note exponentOf_lower [OF assms(1)]
  also note assms(2)
  finally show False by (simp add: power_int_add)
qed

lemma fl_of_int:
  assumes "\<bar>n\<bar> \<le> 2 ^ 53"
  shows "fl (of_int n) = Finite (of_int n)"
proof (cases "n = 0")
  case True
  then show ?thesis by (simp add: fl_def)
next
  case False
  let ?x = "of_int n :: rat"
  let ?e = "max (exponentOf ?x) (- 1022)"
  have x0: "?x \<noteq> 0" using False by simp
  have "\<bar>?x\<bar> = of_int \<bar>n\<bar>" by simp
  also have "\<dots> \<le> of_int (2 ^ 53)" using assms by (simp only: of_int_le_iff)
  finally have xb: "\<bar>?x\<bar> \<le> 2 ^ 53" by simp
  from exponentOf_le [OF x0 xb] have e53: "?e \<le> 53" by simp
  show ?thesis
  proof (cases "?e \<le> 52")
    case True
    define k where "k = nat (52 - ?e)"
    have u: "power_int (2::rat) (?e - 52) = 1 / 2 ^ k"
      using True by (simp add: power_int_def k_def field_simps)
    have q: "?x / (1 / 2 ^ k) = of_int (n * 2 ^ k)" by simp
    have ov: "\<not> (1023 < ?e \<or> (?e = 1023 \<and> \<bar>n * 2 ^ k\<bar> = 2 ^ 53))"
      using True by linarith
    have "fl ?x = Finite (of_int (n * 2 ^ k) * (1 / 2 ^ k))"
      unfolding fl_def Let_def u q roundEven_of_int using x0 ov by (simp only: if_False)
    then show ?thesis by simp
  next
    case False
    with e53 have e: "?e = 53" by simp
    then have "exponentOf ?x = 53" by (simp add: max_def split: if_splits)
    with exponentOf_lower [OF x0] have "2 ^ 53 \<le> \<bar>?x\<bar>" by simp
    with xb have "\<bar>?x\<bar> = 2 ^ 53" by simp
    then have "of_int \<bar>n\<bar> = (of_int (2 ^ 53) :: rat)" by simp
    then have n: "\<bar>n\<bar> = 2 ^ 53" by (simp only: of_int_eq_iff)
    then obtain h where h: "n = 2 * h" "\<bar>h\<bar> = 2 ^ 52" by (cases "0 \<le> n") (auto intro: that [of "2 ^ 52"] that [of "- (2 ^ 52)"])
    have u: "power_int (2::rat) (?e - 52) = 2" unfolding e by simp
    have q: "?x / 2 = of_int h" using h(1) by simp
    have ov: "\<not> (1023 < ?e \<or> (?e = 1023 \<and> \<bar>h\<bar> = 2 ^ 53))"
      unfolding e by simp
    have "fl ?x = Finite (of_int h * 2)"
      unfolding fl_def Let_def u q roundEven_of_int using x0 ov by (simp only: if_False)
    then show ?thesis using h(1) by simp
  qed
qed

lemma isCount_D:
  assumes "isCount n"
  obtains k where "n = Finite (of_int k)" and "0 \<le> k"
proof -
  from assms obtain r where r: "n = Finite r" "0 \<le> r" "r = of_int \<lfloor>r\<rfloor>"
    by (auto simp: isCount_def split: number.splits)
  from r(2) have "0 \<le> \<lfloor>r\<rfloor>" by simp
  with r(1,3) that [of "\<lfloor>r\<rfloor>"] show thesis by simp
qed

lemma valueOf_Finite: "valueOf (Finite r) = r"
  by (simp add: valueOf_def)

lemma valueOf_counts_nonneg: "list_all isCount ns \<Longrightarrow> 0 \<le> sum_list (map valueOf ns)"
  by (induction ns) (auto simp: isCount_def valueOf_def split: number.splits)

lemma foldl_numAdd_counts:
  assumes "isCount a" and "list_all isCount ns"
    and "valueOf a + sum_list (map valueOf ns) \<le> 2 ^ 53"
  shows "foldl numAdd a ns = Finite (valueOf a + sum_list (map valueOf ns))"
  using assms
proof (induction ns arbitrary: a)
  case Nil
  then show ?case by (auto simp: isCount_def valueOf_def split: number.splits)
next
  case (Cons n ns)
  from Cons.prems(1) obtain i where i: "a = Finite (of_int i)" "0 \<le> i" by (rule isCount_D)
  from Cons.prems(2) have cn: "isCount n" and cns: "list_all isCount ns" by simp_all
  from cn obtain j where j: "n = Finite (of_int j)" "0 \<le> j" by (rule isCount_D)
  have rest: "0 \<le> sum_list (map valueOf ns)" by (rule valueOf_counts_nonneg [OF cns])
  from Cons.prems(3) rest have "(of_int (i + j) :: rat) \<le> 2 ^ 53"
    by (simp add: i j valueOf_Finite)
  also have "(2 :: rat) ^ 53 = of_int (2 ^ 53)" by simp
  finally have "i + j \<le> 2 ^ 53" by (simp only: of_int_le_iff)
  with i(2) j(2) have "\<bar>i + j\<bar> \<le> 2 ^ 53" by simp
  from fl_of_int [OF this] have step: "numAdd a n = Finite (of_int (i + j))"
    by (simp add: numAdd_def i j)
  have c: "isCount (Finite (of_int (i + j)))"
    using i(2) j(2) by (simp add: isCount_def)
  have b: "valueOf (Finite (of_int (i + j))) + sum_list (map valueOf ns) \<le> 2 ^ 53"
    using Cons.prems(3) by (simp add: i j valueOf_Finite)
  have "foldl numAdd a (n # ns) = foldl numAdd (Finite (of_int (i + j))) ns"
    by (simp add: step)
  also note Cons.IH [OF c cns b]
  finally show ?case by (simp add: i j valueOf_Finite add.assoc)
qed

section \<open>Lemmas on \<^verbatim>\<open>sumCoverage\<close>\<close>

lemma counted_Nil: "counted [] name f = []"
  by (simp add: counted_def)

lemma counted_Cons:
  "counted ((k, e) # kvs) name f =
     (if isJsFileRe k then (case fieldOf e name f of None \<Rightarrow> [] | Some n \<Rightarrow> [n]) else [])
     @ counted kvs name f"
  by (simp add: counted_def split: option.splits)

lemma addDimension_eq:
  "addDimension entry name s =
     s\<lparr>stat_total := foldl numAdd (stat_total s)
                        (case fieldOf entry name ''total'' of None \<Rightarrow> [] | Some n \<Rightarrow> [n]),
       stat_covered := foldl numAdd (stat_covered s)
                        (case fieldOf entry name ''covered'' of None \<Rightarrow> [] | Some n \<Rightarrow> [n]),
       stat_skipped := foldl numAdd (stat_skipped s)
                        (case fieldOf entry name ''skipped'' of None \<Rightarrow> [] | Some n \<Rightarrow> [n])\<rparr>"
  by (simp add: addDimension_def fieldOf_def addField_def split: option.splits json.splits)

lemma plusStat_Nil: "plusStat s [] name = s"
  by (simp add: plusStat_def counted_Nil)

lemma plusStat_Cons:
  "plusStat s ((k, e) # kvs) name =
     (if isJsFileRe k then plusStat (addDimension e name s) kvs name else plusStat s kvs name)"
  by (simp add: plusStat_def counted_Cons addDimension_eq)

lemma sumObject_flat_error:
  "\<exists>(k, e)\<in>set kvs. isJsFileRe k \<and> e = JNull \<Longrightarrow> sumObject kvs False acc = Inl TypeError"
proof (induction kvs arbitrary: acc)
  case Nil
  then show ?case by simp
next
  case (Cons a kvs)
  obtain k e where a: "a = (k, e)" by (cases a)
  show ?case
  proof (cases "isJsFileRe k \<and> e = JNull")
    case True
    then show ?thesis by (simp add: a addEntry_def)
  next
    case False
    with Cons.prems a have "\<exists>(k, e)\<in>set kvs. isJsFileRe k \<and> e = JNull" by auto
    from Cons.IH [OF this] show ?thesis
      by (simp add: a addEntry_def)
  qed
qed

lemma sumObject_flat:
  "\<not> (\<exists>(k, e)\<in>set kvs. isJsFileRe k \<and> e = JNull) \<Longrightarrow>
   sumObject kvs False acc =
     Inr \<lparr>sum_lines = plusStat (sum_lines acc) kvs ''lines'',
          sum_functions = plusStat (sum_functions acc) kvs ''functions'',
          sum_statements = plusStat (sum_statements acc) kvs ''statements'',
          sum_branches = plusStat (sum_branches acc) kvs ''branches''\<rparr>"
proof (induction kvs arbitrary: acc)
  case Nil
  then show ?case by (simp add: plusStat_Nil)
next
  case (Cons a kvs)
  obtain k e where a: "a = (k, e)" by (cases a)
  from Cons.prems a have rest: "\<not> (\<exists>(k, e)\<in>set kvs. isJsFileRe k \<and> e = JNull)"
    and here: "isJsFileRe k \<longrightarrow> e \<noteq> JNull" by auto
  show ?case
    using here by (simp add: a Cons.IH [OF rest] plusStat_Cons addEntry_def)
qed

lemma computePct_plusStat_zero:
  "computePct (plusStat zeroStat kvs name) = aggregateOf kvs name"
  by (simp add: computePct_def plusStat_def zeroStat_def aggregateOf_def sumOver_def EPSILON_def)



text \<open>
  Two places where the rounding shows. The exact ratio of the first is 87.884999999997,
  which the program reports as 87.89; and \<open>2\<^sup>5\<^sup>3 + 1\<close> is no binary64 value.
\<close>

lemma computePct_rounds_as_binary64:
  "stat_pct (computePct \<lparr>stat_total = Finite 135982199513, stat_covered = Finite 119507956042,
                          stat_skipped = Finite 0, stat_pct = Finite 0\<rparr>) = fl (8789 / 100)"
  by code_simp

lemma numAdd_rounds_above_2_53:
  "numAdd (Finite 9007199254740992) (Finite 1) = Finite 9007199254740992"
  by code_simp

lemma sumOver_counts:
  assumes "list_all isCount (counted kvs name f)" and "exactSum kvs name f \<le> 2 ^ 53"
  shows "sumOver kvs name f = Finite (exactSum kvs name f)"
proof -
  have z: "isCount (Finite 0)" by (simp add: isCount_def)
  have "foldl numAdd (Finite 0) (counted kvs name f)
      = Finite (valueOf (Finite 0) + sum_list (map valueOf (counted kvs name f)))"
    by (rule foldl_numAdd_counts [OF z assms(1)])
       (use assms(2) in \<open>simp add: exactSum_def valueOf_def\<close>)
  then show ?thesis by (simp add: sumOver_def exactSum_def valueOf_def)
qed

lemma statColor_number: "statColor rt (Some (JNum p)) = Inr (colorOfPct p)"
  by (cases p) (simp_all add: statColor_def greaterEq_def colorOfPct_def)


section \<open>Lemmas on the Renderer\<close>

lemma eraseColorProps_update_color:
  "eraseColorProps (AList.update ''color'' v kvs) = eraseColorProps kvs"
  by (induction kvs) auto

lemma eraseColorProps_update_other:
  "k \<noteq> ''color'' \<Longrightarrow>
   eraseColorProps (AList.update k v kvs) = AList.update k (eraseColor v) (eraseColorProps kvs)"
  by (induction kvs) auto

lemma map_of_eraseColorProps:
  "k \<noteq> ''color'' \<Longrightarrow> map_of (eraseColorProps kvs) k = map_option eraseColor (map_of kvs k)"
  by (induction kvs) auto

lemma update_same: "map_of al k = Some v \<Longrightarrow> AList.update k v al = al"
  by (induction al) (auto split: if_splits)

lemma set_prop_color_erase:
  "set_prop s ''color'' c = Inr s' \<Longrightarrow> eraseColor s' = eraseColor s"
  by (cases s) (auto simp: eraseColorProps_update_color split: if_splits)

lemma colorStat_erase:
  assumes "colorStat rt stats stat = Inr stats'" and "stat \<noteq> ''color''"
  shows "eraseColor stats' = eraseColor stats"
proof -
  from assms(1) obtain kvs s c s' where
    stats: "stats = JObj kvs" and s: "map_of kvs stat = Some s"
    and s': "set_prop s ''color'' (JStr c) = Inr s'"
    and res: "stats' = JObj (AList.update stat s' kvs)"
    by (auto simp: colorStat_def split: json.splits option.splits sum.splits)
  have "eraseColorProps (AList.update stat s' kvs) = AList.update stat (eraseColor s') (eraseColorProps kvs)"
    using assms(2) by (rule eraseColorProps_update_other)
  also have "eraseColor s' = eraseColor s" using s' by (rule set_prop_color_erase)
  also have "AList.update stat (eraseColor s) (eraseColorProps kvs) = eraseColorProps kvs"
    by (rule update_same) (simp add: map_of_eraseColorProps assms(2) s)
  finally show ?thesis by (simp add: stats res)
qed

lemma colorStats_erase:
  "colorStats rt names stats = Inr stats' \<Longrightarrow> ''color'' \<notin> set names \<Longrightarrow>
   eraseColor stats' = eraseColor stats"
proof (induction names arbitrary: stats)
  case Nil
  then show ?case by simp
next
  case (Cons n names)
  then obtain mid where m: "colorStat rt stats n = Inr mid" and r: "colorStats rt names mid = Inr stats'"
    by (auto split: sum.splits)
  from Cons.prems(2) have n: "n \<noteq> ''color''" and ns: "''color'' \<notin> set names" by auto
  from Cons.IH [OF r ns] colorStat_erase [OF m n] show ?case by simp
qed

lemma addColorToStats_erase:
  "addColorToStats rt stats = Inr stats' \<Longrightarrow> eraseColor stats' = eraseColor stats"
  unfolding addColorToStats_def
  by (erule colorStats_erase) (simp add: statsToProcess_def)

lemma totalRows_erase:
  "totalRows rt tot = Inr (table, tot') \<Longrightarrow> map_option eraseColor tot' = map_option eraseColor tot"
  by (auto simp: totalRows_def addColorToStats_erase split: option.splits if_splits sum.splits)

lemma fileRow_erase:
  "fileRow rt fileKey fileEntry depth = Inr (row, fileEntry') \<Longrightarrow> eraseColor fileEntry' = eraseColor fileEntry"
  by (auto simp: fileRow_def addColorToStats_erase split: sum.splits)

lemma buildTableDepth_erase_all:
  "(\<forall>table tot' files'. buildTableDepth rt tot files depth = Inr (table, tot', files') \<longrightarrow>
      eraseColor files' = eraseColor files \<and> map_option eraseColor tot' = map_option eraseColor tot)"
  "(\<forall>rows kvs'. fileRows rt kvs d1 = Inr (rows, kvs') \<longrightarrow> eraseColorProps kvs' = eraseColorProps kvs)"
  "(\<forall>rows xs'. elementRows rt xs i d2 = Inr (rows, xs') \<longrightarrow> eraseColorElems xs' = eraseColorElems xs)"
proof (induction rt tot files depth and rt kvs d1 and rt xs i d2
       rule: buildTableDepth_fileRows_elementRows.induct)
  case (1 rt tot kvs depth)
  show ?case
  proof (intro allI impI)
    fix table tot' files'
    assume a: "buildTableDepth rt tot (JObj kvs) depth = Inr (table, tot', files')"
    then obtain t1 rows kvs' where tr: "totalRows rt tot = Inr (t1, tot')"
      and fr: "fileRows rt kvs (if depth \<le> 0 then 1 else depth) = Inr (rows, kvs')"
      and f: "files' = JObj kvs'"
      by (auto split: sum.splits prod.splits)
    from "1.IH" [OF tr refl] fr have "eraseColorProps kvs' = eraseColorProps kvs" by blast
    with totalRows_erase [OF tr] f
    show "eraseColor files' = eraseColor (JObj kvs) \<and> map_option eraseColor tot' = map_option eraseColor tot"
      by simp
  qed
next
  case (2 rt tot xs depth)
  show ?case
  proof (intro allI impI)
    fix table tot' files'
    assume a: "buildTableDepth rt tot (JArr xs) depth = Inr (table, tot', files')"
    then obtain t1 rows xs' where tr: "totalRows rt tot = Inr (t1, tot')"
      and fr: "elementRows rt xs 0 (if depth \<le> 0 then 1 else depth) = Inr (rows, xs')"
      and f: "files' = JArr xs'"
      by (auto split: sum.splits prod.splits)
    from "2.IH" [OF tr refl] fr have "eraseColorElems xs' = eraseColorElems xs" by blast
    with totalRows_erase [OF tr] f
    show "eraseColor files' = eraseColor (JArr xs) \<and> map_option eraseColor tot' = map_option eraseColor tot"
      by simp
  qed
next
  case (3 rt tot s depth)
  show ?case
  proof (intro allI impI)
    fix table tot' files'
    assume a: "buildTableDepth rt tot (JStr s) depth = Inr (table, tot', files')"
    then obtain t1 where tr: "totalRows rt tot = Inr (t1, tot')" and f: "files' = JStr s"
      by (auto split: sum.splits prod.splits if_splits)
    with totalRows_erase [OF tr]
    show "eraseColor files' = eraseColor (JStr s) \<and> map_option eraseColor tot' = map_option eraseColor tot"
      by simp
  qed
next
  case (4 rt tot depth)
  show ?case
  proof (intro allI impI)
    fix table tot' files'
    assume a: "buildTableDepth rt tot JNull depth = Inr (table, tot', files')"
    then obtain t1 where tr: "totalRows rt tot = Inr (t1, tot')" and f: "files' = JNull"
      by (auto split: sum.splits prod.splits)
    with totalRows_erase [OF tr]
    show "eraseColor files' = eraseColor JNull \<and> map_option eraseColor tot' = map_option eraseColor tot"
      by simp
  qed
next
  case (5 rt tot b depth)
  show ?case
  proof (intro allI impI)
    fix table tot' files'
    assume a: "buildTableDepth rt tot (JBool b) depth = Inr (table, tot', files')"
    then obtain t1 where tr: "totalRows rt tot = Inr (t1, tot')" and f: "files' = JBool b"
      by (auto split: sum.splits prod.splits)
    with totalRows_erase [OF tr]
    show "eraseColor files' = eraseColor (JBool b) \<and> map_option eraseColor tot' = map_option eraseColor tot"
      by simp
  qed
next
  case (6 rt tot n depth)
  show ?case
  proof (intro allI impI)
    fix table tot' files'
    assume a: "buildTableDepth rt tot (JNum n) depth = Inr (table, tot', files')"
    then obtain t1 where tr: "totalRows rt tot = Inr (t1, tot')" and f: "files' = JNum n"
      by (auto split: sum.splits prod.splits)
    with totalRows_erase [OF tr]
    show "eraseColor files' = eraseColor (JNum n) \<and> map_option eraseColor tot' = map_option eraseColor tot"
      by simp
  qed
next
  case (7 rt depth)
  show ?case by simp
next
  case (8 rt fileKey fileEntry rest depth)
  show ?case
  proof (intro allI impI)
    fix rows kvs'
    assume a: "fileRows rt ((fileKey, fileEntry) # rest) depth = Inr (rows, kvs')"
    show "eraseColorProps kvs' = eraseColorProps ((fileKey, fileEntry) # rest)"
    proof (cases "isJsFileRe fileKey")
      case True
      with a obtain r1 e1 r2 rest' where
        fr: "fileRow rt fileKey fileEntry depth = Inr (r1, e1)"
        and rr: "fileRows rt rest depth = Inr (r2, rest')"
        and k: "kvs' = (fileKey, e1) # rest'"
        by (auto split: sum.splits prod.splits)
      have sel: "(if isJsFileRe fileKey then fileRow rt fileKey fileEntry depth
            else (case directoryRow rt fileKey fileEntry depth of
                    Inl x \<Rightarrow> Inl x
                  | Inr row \<Rightarrow>
                      (case buildTableDepth rt None fileEntry (depth + 1) of
                         Inl x \<Rightarrow> Inl x
                       | Inr (sub, none, fileEntry') \<Rightarrow> Inr (row @ sub, fileEntry')))) = Inr (r1, e1)"
        using True fr by simp
      from "8.IH"(2) [OF sel refl] rr
      have "eraseColorProps rest' = eraseColorProps rest" by blast
      with fileRow_erase [OF fr] k show ?thesis by simp
    next
      case False
      with a obtain row sub n e1 r2 rest' where
        dr: "directoryRow rt fileKey fileEntry depth = Inr row"
        and bt: "buildTableDepth rt None fileEntry (depth + 1) = Inr (sub, n, e1)"
        and rr: "fileRows rt rest depth = Inr (r2, rest')"
        and k: "kvs' = (fileKey, e1) # rest'"
        by (auto split: sum.splits prod.splits)
      from "8.IH"(1) [OF False dr] bt have e: "eraseColor e1 = eraseColor fileEntry" by blast
      have sel: "(if isJsFileRe fileKey then fileRow rt fileKey fileEntry depth
            else (case directoryRow rt fileKey fileEntry depth of
                    Inl x \<Rightarrow> Inl x
                  | Inr row \<Rightarrow>
                      (case buildTableDepth rt None fileEntry (depth + 1) of
                         Inl x \<Rightarrow> Inl x
                       | Inr (sub, none, fileEntry') \<Rightarrow> Inr (row @ sub, fileEntry')))) = Inr (row @ sub, e1)"
        using False dr bt by simp
      from "8.IH"(2) [OF sel refl] rr
      have "eraseColorProps rest' = eraseColorProps rest" by blast
      with e k show ?thesis by simp
    qed
  qed
next
  case (9 rt i depth)
  show ?case by simp
next
  case (10 rt fileEntry rest i depth)
  show ?case
  proof (intro allI impI)
    fix rows xs'
    assume a: "elementRows rt (fileEntry # rest) i depth = Inr (rows, xs')"
    then obtain row sub n e1 r2 rest' where
      dr: "directoryRow rt (showNat i) fileEntry depth = Inr row"
      and bt: "buildTableDepth rt None fileEntry (depth + 1) = Inr (sub, n, e1)"
      and rr: "elementRows rt rest (i + 1) depth = Inr (r2, rest')"
      and k: "xs' = e1 # rest'"
      by (auto split: sum.splits prod.splits)
    from "10.IH"(1) [OF dr] bt have e: "eraseColor e1 = eraseColor fileEntry" by blast
    from "10.IH"(2) [OF dr bt refl refl] rr
    have "eraseColorElems rest' = eraseColorElems rest" by blast
    with e k show "eraseColorElems xs' = eraseColorElems (fileEntry # rest)" by simp
  qed
qed


lemma colorStat_other:
  "colorStat rt stats stat = Inr stats' \<Longrightarrow> n \<noteq> stat \<Longrightarrow> get_prop stats' n = get_prop stats n"
  by (auto simp: colorStat_def update_conv' split: json.splits option.splits sum.splits)




lemma colorStat_effect:
  "colorStat rt stats stat = Inr stats' \<Longrightarrow>
   (\<exists>s. get_prop stats stat = Some s \<and> s \<noteq> JNull)
   \<and> get_prop stats' stat = map_option (withColor rt) (get_prop stats stat)"
  by (auto simp: colorStat_def withColor_def update_conv'
      split: json.splits option.splits sum.splits)

lemma colorStats_effect:
  "colorStats rt names stats = Inr stats' \<Longrightarrow> distinct names \<Longrightarrow>
   (\<forall>n\<in>set names. \<exists>s. get_prop stats n = Some s \<and> s \<noteq> JNull)
   \<and> (\<forall>n. get_prop stats' n =
          (if n \<in> set names then map_option (withColor rt) (get_prop stats n)
           else get_prop stats n))"
proof (induction names arbitrary: stats)
  case Nil
  then show ?case by simp
next
  case (Cons a names)
  then obtain mid where m: "colorStat rt stats a = Inr mid" and r: "colorStats rt names mid = Inr stats'"
    by (auto split: sum.splits)
  from Cons.prems(2) have d: "distinct names" and an: "a \<notin> set names" by simp_all
  note e = colorStat_effect [OF m]
  note o = colorStat_other [OF m]
  note ih = Cons.IH [OF r d]
  have 1: "\<exists>s. get_prop stats n = Some s \<and> s \<noteq> JNull" if "n \<in> set (a # names)" for n
  proof (cases "n = a")
    case True
    with e show ?thesis by simp
  next
    case False
    with that have "n \<in> set names" by simp
    with ih have "\<exists>s. get_prop mid n = Some s \<and> s \<noteq> JNull" by blast
    with o [OF False] show ?thesis by simp
  qed
  have 2: "get_prop stats' n =
          (if n \<in> set (a # names) then map_option (withColor rt) (get_prop stats n)
           else get_prop stats n)" for n
  proof (cases "n = a")
    case True
    from ih an have "get_prop stats' a = get_prop mid a" by simp
    with e True show ?thesis by simp
  next
    case False
    from ih have "get_prop stats' n =
          (if n \<in> set names then map_option (withColor rt) (get_prop mid n) else get_prop mid n)"
      by blast
    with o [OF False] False show ?thesis by simp
  qed
  from 1 2 show ?case by blast
qed

lemma colorStats_returns:
  "distinct names \<Longrightarrow>
   \<forall>n\<in>set names. \<exists>ps p. get_prop stats n = Some (JObj ps) \<and> map_of ps ''pct'' = Some (JNum p) \<Longrightarrow>
   \<exists>stats'. colorStats rt names stats = Inr stats'"
proof (induction names arbitrary: stats)
  case Nil
  then show ?case by simp
next
  case (Cons a names)
  from Cons.prems(2) obtain ps p where a: "get_prop stats a = Some (JObj ps)"
    "map_of ps ''pct'' = Some (JNum p)" by auto
  then obtain kvs where k: "stats = JObj kvs" by (cases stats) auto
  from a k have "\<exists>mid. colorStat rt stats a = Inr mid"
    by (simp add: colorStat_def statColor_number)
  then obtain mid where m: "colorStat rt stats a = Inr mid" by blast
  from Cons.prems(1) have d: "distinct names" and an: "a \<notin> set names" by simp_all
  have "\<forall>n\<in>set names. \<exists>ps p. get_prop mid n = Some (JObj ps) \<and> map_of ps ''pct'' = Some (JNum p)"
  proof
    fix n assume n: "n \<in> set names"
    with an have "n \<noteq> a" by auto
    from colorStat_other [OF m this] Cons.prems(2) n
    show "\<exists>ps p. get_prop mid n = Some (JObj ps) \<and> map_of ps ''pct'' = Some (JNum p)" by simp
  qed
  from Cons.IH [OF d this] show ?case by (simp add: m)
qed

lemma totalRows_None: "totalRows rt None = Inr ([], None)"
  by (simp add: totalRows_def)

lemma buildTableDepth_None:
  "buildTableDepth rt None files depth = Inr (table, tot', files') \<Longrightarrow> tot' = None"
  by (cases files) (auto simp: totalRows_None split: sum.splits prod.splits if_splits)

lemma totalRows_colored:
  assumes "totalRows rt tot = Inr (table, tot')"
  shows "(\<forall>t. tot = Some t \<and> truthy t \<longrightarrow> addColorToStats rt t = Inr (the tot') \<and> tot' \<noteq> None)
       \<and> (\<forall>t. tot = Some t \<and> \<not> truthy t \<longrightarrow> tot' = tot)
       \<and> (tot = None \<longrightarrow> tot' = None)"
  using assms by (auto simp: totalRows_def split: option.splits if_splits sum.splits)

lemma buildTableDepth_totalRows:
  "buildTableDepth rt tot files depth = Inr (table, tot', files') \<Longrightarrow>
   \<exists>t. totalRows rt tot = Inr (t, tot')"
  by (cases files) (auto split: sum.splits prod.splits if_splits)

lemma fileRow_colored:
  "fileRow rt fileKey fileEntry depth = Inr (row, fileEntry') \<Longrightarrow>
   addColorToStats rt fileEntry = Inr fileEntry'"
  by (auto simp: fileRow_def split: sum.splits)

lemma fileRows_rendered:
  "fileRows rt kvs depth = Inr (rows, kvs') \<Longrightarrow> list_all2 (renderedEntry rt depth) kvs kvs'"
proof (induction kvs arbitrary: rows kvs')
  case Nil
  then show ?case by simp
next
  case (Cons a kvs)
  obtain k v where a: "a = (k, v)" by (cases a)
  from Cons.prems a obtain r1 v' r2 rest' where
    one: "(if isJsFileRe k then fileRow rt k v depth
           else (case directoryRow rt k v depth of
                   Inl err \<Rightarrow> Inl err
                 | Inr row \<Rightarrow>
                     (case buildTableDepth rt None v (depth + 1) of
                        Inl err \<Rightarrow> Inl err
                      | Inr (sub, none, fileEntry') \<Rightarrow> Inr (row @ sub, fileEntry')))) = Inr (r1, v')"
    and others: "fileRows rt kvs depth = Inr (r2, rest')"
    and k': "kvs' = (k, v') # rest'"
    by (auto split: sum.splits prod.splits)
  have "renderedEntry rt depth (k, v) (k, v')"
  proof (cases "isJsFileRe k")
    case True
    with one have "fileRow rt k v depth = Inr (r1, v')" by simp
    from fileRow_colored [OF this] True show ?thesis by (simp add: renderedEntry_def)
  next
    case False
    with one obtain sub n where
      bt: "buildTableDepth rt None v (depth + 1) = Inr (sub, n, v')"
      by (auto split: sum.splits prod.splits)
    from buildTableDepth_None [OF bt] bt False show ?thesis
      by (auto simp: renderedEntry_def)
  qed
  with Cons.IH [OF others] show ?case by (simp add: a k')
qed

lemma buildTableDepth_rendered:
  "buildTableDepth rt tot (JObj kvs) depth = Inr (table, tot', files') \<Longrightarrow>
   \<exists>kvs'. files' = JObj kvs'
      \<and> list_all2 (renderedEntry rt (if depth \<le> 0 then 1 else depth)) kvs kvs'"
  by (auto split: sum.splits prod.splits dest: fileRows_rendered)

section \<open>Lemmas on the TreeBuilder\<close>

lemma splitOn_nonempty: "splitOn P s \<noteq> []"
  by (induction s) (auto split: list.splits)

lemma splitOn_none: "\<forall>c\<in>set s. \<not> P c \<Longrightarrow> splitOn P s = [s]"
  by (induction s) auto

lemma splitOn_pieces: "seg \<in> set (splitOn P s) \<Longrightarrow> c \<in> set seg \<Longrightarrow> \<not> P c"
proof (induction s arbitrary: seg)
  case Nil
  then show ?case by simp
next
  case (Cons a s)
  show ?case
  proof (cases "P a")
    case True
    with Cons show ?thesis by auto
  next
    case False
    obtain x xs where sp: "splitOn P s = x # xs"
      using splitOn_nonempty [of P s] by (cases "splitOn P s") auto
    with Cons.prems False have "seg = a # x \<or> seg \<in> set xs" by auto
    then show ?thesis
    proof
      assume "seg = a # x"
      with Cons.prems(2) have "c = a \<or> c \<in> set x" by auto
      then show ?thesis using False Cons.IH [of x] sp by auto
    next
      assume "seg \<in> set xs"
      then show ?thesis using Cons.IH [of seg] Cons.prems(2) sp by auto
    qed
  qed
qed

lemma splitOn_some: "\<exists>c\<in>set s. P c \<Longrightarrow> 2 \<le> length (splitOn P s)"
proof (induction s)
  case Nil
  then show ?case by simp
next
  case (Cons a s)
  obtain x xs where sp: "splitOn P s = x # xs"
    using splitOn_nonempty [of P s] by (cases "splitOn P s") auto
  show ?case
  proof (cases "P a")
    case True
    then show ?thesis by (simp add: sp)
  next
    case False
    with Cons.prems have "\<exists>c\<in>set s. P c" by auto
    from Cons.IH [OF this] False show ?thesis by (simp add: sp)
  qed
qed

lemma joinWith_Cons_head: "joinWith sep ((c # s) # ss) = c # joinWith sep (s # ss)"
  by (cases ss) auto

lemma joinWith_splitOn: "joinWith [sc] (splitOn (\<lambda>c. c = sc) s) = s"
proof (induction s)
  case Nil
  then show ?case by simp
next
  case (Cons a s)
  obtain x xs where sp: "splitOn (\<lambda>c. c = sc) s = x # xs"
    using splitOn_nonempty [of _ s] by (cases "splitOn (\<lambda>c. c = sc) s") auto
  show ?case
    using Cons.IH by (cases "a = sc") (simp_all add: sp joinWith_Cons_head)
qed

lemma joinWith_butlast:
  "2 \<le> length xs \<Longrightarrow> joinWith sep xs = joinWith sep (butlast xs) @ sep @ last xs"
proof (induction sep xs rule: joinWith.induct)
  case (1 sep)
  then show ?case by simp
next
  case (2 sep s)
  then show ?case by simp
next
  case (3 sep s t ss)
  show ?case
  proof (cases ss)
    case Nil
    then show ?thesis by simp
  next
    case (Cons u us)
    with "3.IH" have "joinWith sep (t # ss) = joinWith sep (butlast (t # ss)) @ sep @ last (t # ss)"
      by simp
    with Cons show ?thesis by simp
  qed
qed

lemma path_without_slash:
  "CHR ''/'' \<notin> set p \<Longrightarrow> pathWithoutFile p = [] \<and> lastSlice p = p"
proof -
  assume "CHR ''/'' \<notin> set p"
  then have "\<forall>c\<in>set p. \<not> c = CHR ''/''" by auto
  then have "splitOn (\<lambda>c. c = CHR ''/'') p = [p]" by (rule splitOn_none)
  then show ?thesis by (simp add: pathWithoutFile_def lastSlice_def pathSlices_def)
qed

lemma path_with_slash:
  assumes "CHR ''/'' \<in> set p"
  shows "p = pathWithoutFile p @ ''/'' @ lastSlice p \<and> CHR ''/'' \<notin> set (lastSlice p)"
proof -
  have len: "2 \<le> length (pathSlices p)"
    unfolding pathSlices_def using assms by (intro splitOn_some) auto
  have "p = joinWith ''/'' (pathSlices p)"
    unfolding pathSlices_def by (simp add: joinWith_splitOn)
  also have "\<dots> = pathWithoutFile p @ ''/'' @ lastSlice p"
    unfolding pathWithoutFile_def lastSlice_def by (rule joinWith_butlast [OF len])
  finally have 1: "p = pathWithoutFile p @ ''/'' @ lastSlice p" .
  have "lastSlice p \<in> set (pathSlices p)"
    unfolding lastSlice_def using len by (intro last_in_set) auto
  then have 2: "CHR ''/'' \<notin> set (lastSlice p)"
    unfolding pathSlices_def using splitOn_pieces by fastforce
  from 1 2 show ?thesis by (rule conjI)
qed

lemma slash_free_rejoined:
  assumes "CHR ''/'' \<notin> set q"
  shows "pathWithoutFile q @ ''/'' @ lastSlice q = CHR ''/'' # q"
proof -
  have q: "pathWithoutFile q = []" "lastSlice q = q"
    using path_without_slash [OF assms] by simp_all
  show ?thesis unfolding q by simp
qed

lemma split_path_inj:
  assumes "pathWithoutFile p = pathWithoutFile q" and "lastSlice p = lastSlice q"
  shows "p = q \<or> (CHR ''/'' \<notin> set p \<and> q = CHR ''/'' # p) \<or> (CHR ''/'' \<notin> set q \<and> p = CHR ''/'' # q)"
proof -
  have same: "pathWithoutFile p @ ''/'' @ lastSlice p = pathWithoutFile q @ ''/'' @ lastSlice q"
    using assms by simp
  show ?thesis
  proof (cases "CHR ''/'' \<in> set p")
    case True
    note inp = this
    show ?thesis
    proof (cases "CHR ''/'' \<in> set q")
      case True
      have "p = pathWithoutFile p @ ''/'' @ lastSlice p"
        using path_with_slash [OF inp] by (rule conjunct1)
      also note same
      also have "pathWithoutFile q @ ''/'' @ lastSlice q = q"
        using path_with_slash [OF True, THEN conjunct1] by (rule sym)
      finally show ?thesis by (rule disjI1)
    next
      case False
      have "p = pathWithoutFile p @ ''/'' @ lastSlice p"
        using path_with_slash [OF inp] by (rule conjunct1)
      also note same
      also note slash_free_rejoined [OF False]
      finally have e: "p = CHR ''/'' # q" .
      show ?thesis by (intro disjI2 conjI) (rule False, rule e)
    qed
  next
    case False
    note notp = this
    show ?thesis
    proof (cases "CHR ''/'' \<in> set q")
      case True
      have "q = pathWithoutFile q @ ''/'' @ lastSlice q"
        using path_with_slash [OF True] by (rule conjunct1)
      also note same [symmetric]
      also note slash_free_rejoined [OF notp]
      finally have e: "q = CHR ''/'' # p" .
      show ?thesis by (rule disjI2, rule disjI1, rule conjI) (rule notp, rule e)
    next
      case False
      have "p = lastSlice p" using path_without_slash [OF notp] by simp
      also note assms(2)
      also have "lastSlice q = q" using path_without_slash [OF False] by simp
      finally show ?thesis by (rule disjI1)
    qed
  qed
qed

lemma divideEntry_file_returns:
  assumes "p \<noteq> ''total''" and "pathWithoutFile p \<noteq> ''total''" and "directoriesAreObjects d"
    and "\<not> inherited (pathWithoutFile p)" and "lastSlice p \<noteq> ''__proto__''"
  shows "\<exists>d'. divideEntry d p v = Inr d'"
proof -
  from assms(2,3) consider (absent) "map_of d (pathWithoutFile p) = None"
    | (object) kvs where "map_of d (pathWithoutFile p) = Some (JObj kvs)"
    unfolding directoriesAreObjects_def by metis
  then show ?thesis
  proof cases
    case absent
    with assms(1,4,5) show ?thesis
      by (simp add: divideEntry_def truthy_opt_def Let_def update_conv')
  next
    case (object kvs)
    with assms(1,4,5) show ?thesis
      by (simp add: divideEntry_def truthy_opt_def Let_def)
  qed
qed

lemma divideEntry_file_map:
  assumes "divideEntry d p v = Inr d'" and "p \<noteq> ''total''"
    and "pathWithoutFile p \<noteq> ''total''" and "directoriesAreObjects d"
    and "\<not> inherited (pathWithoutFile p)"
  shows "\<exists>kvs. (map_of d (pathWithoutFile p) = None \<and> kvs = []
               \<or> map_of d (pathWithoutFile p) = Some (JObj kvs))
          \<and> (\<forall>k. map_of d' k =
                (if k = pathWithoutFile p then Some (JObj (AList.update (lastSlice p) v kvs))
                 else map_of d k))"
proof -
  from assms(3,4) consider (absent) "map_of d (pathWithoutFile p) = None"
    | (object) kvs where "map_of d (pathWithoutFile p) = Some (JObj kvs)"
    unfolding directoriesAreObjects_def by metis
  then show ?thesis
  proof cases
    case absent
    with assms(1,2,5) have "\<forall>k. map_of d' k =
        (if k = pathWithoutFile p then Some (JObj (AList.update (lastSlice p) v []))
         else map_of d k)"
      by (auto simp: divideEntry_def truthy_opt_def Let_def update_conv' split: if_splits)
    with absent show ?thesis by blast
  next
    case (object kvs)
    with assms(1,2,5) have "\<forall>k. map_of d' k =
        (if k = pathWithoutFile p then Some (JObj (AList.update (lastSlice p) v kvs))
         else map_of d k)"
      by (auto simp: divideEntry_def truthy_opt_def Let_def update_conv' split: if_splits)
    with object show ?thesis by blast
  qed
qed

lemma divideEntry_file:
  assumes "divideEntry d p v = Inr d'" and "p \<noteq> ''total''"
    and "pathWithoutFile p \<noteq> ''total''" and "directoriesAreObjects d"
    and "\<not> inherited (pathWithoutFile p)"
  shows "directoriesAreObjects d'"
    and "\<And>k b. k \<noteq> ''total'' \<Longrightarrow> treeLookup d' k b =
          (if k = pathWithoutFile p \<and> b = lastSlice p then Some v else treeLookup d k b)"
    and "map_of d' ''total'' = map_of d ''total''"
proof -
  from divideEntry_file_map [OF assms] obtain kvs where
    old: "map_of d (pathWithoutFile p) = None \<and> kvs = []
          \<or> map_of d (pathWithoutFile p) = Some (JObj kvs)"
    and new: "\<And>k. map_of d' k =
                (if k = pathWithoutFile p then Some (JObj (AList.update (lastSlice p) v kvs))
                 else map_of d k)"
    by blast
  show "directoriesAreObjects d'"
    using assms(4) unfolding directoriesAreObjects_def by (simp add: new)
  show "map_of d' ''total'' = map_of d ''total''"
    using assms(3) by (simp add: new)
  show "treeLookup d' k b =
          (if k = pathWithoutFile p \<and> b = lastSlice p then Some v else treeLookup d k b)"
    if "k \<noteq> ''total''" for k b
    using old by (auto simp: treeLookup_def new update_conv')
qed

lemma divideEntry_total:
  assumes "divideEntry d ''total'' v = Inr d'" and "directoriesAreObjects d"
  shows "directoriesAreObjects d'"
    and "\<And>k b. k \<noteq> ''total'' \<Longrightarrow> treeLookup d' k b = treeLookup d k b"
    and "map_of d' ''total'' = Some v"
proof -
  from assms(1) have d': "d' = AList.update ''total'' v d"
    by (simp add: divideEntry_def)
  show "directoriesAreObjects d'"
    using assms(2) unfolding directoriesAreObjects_def d' by (simp add: update_conv')
  show "map_of d' ''total'' = Some v"
    by (simp add: d' update_conv')
  show "treeLookup d' k b = treeLookup d k b" if "k \<noteq> ''total''" for k b
    using that by (simp add: treeLookup_def d' update_conv')
qed

lemma treeEntries_Cons:
  "treeEntries ((p, v) # js) =
     (if p = ''total'' then treeEntries js
      else ((pathWithoutFile p, lastSlice p), v) # treeEntries js)"
  by (simp add: treeEntries_def)

lemma map_of_snoc:
  "map_of (xs @ [(a, v)]) k = (case map_of xs k of Some w \<Rightarrow> Some w | None \<Rightarrow> if k = a then Some v else None)"
  by (induction xs) auto

lemma divideAll_inv:
  assumes "divideAll d js = Inr d'" and "directoriesAreObjects d"
    and "\<forall>p\<in>fst ` set js. p \<noteq> ''total'' \<longrightarrow>
           pathWithoutFile p \<noteq> ''total'' \<and> \<not> inherited (pathWithoutFile p)"
  shows "directoriesAreObjects d'
    \<and> (\<forall>k b. k \<noteq> ''total'' \<longrightarrow> treeLookup d' k b =
          (case map_of (rev (treeEntries js)) (k, b) of Some v \<Rightarrow> Some v | None \<Rightarrow> treeLookup d k b))
    \<and> map_of d' ''total'' =
          (case map_of (rev js) ''total'' of Some v \<Rightarrow> Some v | None \<Rightarrow> map_of d ''total'')"
  using assms
proof (induction js arbitrary: d)
  case Nil
  then show ?case by (simp add: treeEntries_def)
next
  case (Cons a js)
  obtain p v where a: "a = (p, v)" by (cases a)
  from Cons.prems(1) a obtain d1 where
    s1: "divideEntry d p v = Inr d1" and s2: "divideAll d1 js = Inr d'"
    by (auto split: sum.splits)
  from Cons.prems(3) have rest: "\<forall>p\<in>fst ` set js. p \<noteq> ''total'' \<longrightarrow>
           pathWithoutFile p \<noteq> ''total'' \<and> \<not> inherited (pathWithoutFile p)"
    by simp
  show ?case
  proof (cases "p = ''total''")
    case True
    note st = divideEntry_total [OF s1 [unfolded True] Cons.prems(2)]
    from Cons.IH [OF s2 st(1) rest] have ih:
      "directoriesAreObjects d'"
      "\<And>k b. k \<noteq> ''total'' \<Longrightarrow> treeLookup d' k b =
          (case map_of (rev (treeEntries js)) (k, b) of Some v \<Rightarrow> Some v | None \<Rightarrow> treeLookup d1 k b)"
      "map_of d' ''total'' =
          (case map_of (rev js) ''total'' of Some v \<Rightarrow> Some v | None \<Rightarrow> map_of d1 ''total'')"
      by blast+
    show ?thesis
      using ih(1) by (auto simp: a True treeEntries_Cons ih(2) ih(3) st(2) st(3) map_of_snoc
          split: option.splits)
  next
    case False
    from Cons.prems(3) a False have dir: "pathWithoutFile p \<noteq> ''total''"
      and ni: "\<not> inherited (pathWithoutFile p)" by simp_all
    note st = divideEntry_file [OF s1 False dir Cons.prems(2) ni]
    from Cons.IH [OF s2 st(1) rest] have ih:
      "directoriesAreObjects d'"
      "\<And>k b. k \<noteq> ''total'' \<Longrightarrow> treeLookup d' k b =
          (case map_of (rev (treeEntries js)) (k, b) of Some v \<Rightarrow> Some v | None \<Rightarrow> treeLookup d1 k b)"
      "map_of d' ''total'' =
          (case map_of (rev js) ''total'' of Some v \<Rightarrow> Some v | None \<Rightarrow> map_of d1 ''total'')"
      by blast+
    show ?thesis
      using ih(1) False by (auto simp: a treeEntries_Cons ih(2) ih(3) st(2) st(3) map_of_snoc
          split: option.splits)
  qed
qed

lemma divideAll_returns:
  assumes "directoriesAreObjects d"
    and "\<forall>p\<in>fst ` set js. p \<noteq> ''total'' \<longrightarrow>
           pathWithoutFile p \<noteq> ''total'' \<and> \<not> inherited (pathWithoutFile p)
           \<and> lastSlice p \<noteq> ''__proto__''"
  shows "\<exists>d'. divideAll d js = Inr d'"
  using assms
proof (induction js arbitrary: d)
  case Nil
  then show ?case by simp
next
  case (Cons a js)
  obtain p v where a: "a = (p, v)" by (cases a)
  from Cons.prems(2) have rest: "\<forall>p\<in>fst ` set js. p \<noteq> ''total'' \<longrightarrow>
           pathWithoutFile p \<noteq> ''total'' \<and> \<not> inherited (pathWithoutFile p)
           \<and> lastSlice p \<noteq> ''__proto__''"
    by simp
  show ?case
  proof (cases "p = ''total''")
    case True
    have s1: "divideEntry d ''total'' v = Inr (AList.update ''total'' v d)"
      by (simp add: divideEntry_def)
    note st = divideEntry_total(1) [OF s1 Cons.prems(1)]
    from Cons.IH [OF st rest] show ?thesis by (simp add: a True s1)
  next
    case False
    from Cons.prems(2) a False have dir: "pathWithoutFile p \<noteq> ''total''"
      and ni: "\<not> inherited (pathWithoutFile p)" and np: "lastSlice p \<noteq> ''__proto__''"
      by simp_all
    from divideEntry_file_returns [OF False dir Cons.prems(1) ni np, of v]
    obtain d1 where s1: "divideEntry d p v = Inr d1" by blast
    note st = divideEntry_file(1) [OF s1 False dir Cons.prems(1) ni]
    from Cons.IH [OF st rest] show ?thesis by (simp add: a s1)
  qed
qed

lemma map_of_rev_distinct: "distinct (map fst xs) \<Longrightarrow> map_of (rev xs) k = map_of xs k"
proof (induction xs)
  case Nil
  then show ?case by simp
next
  case (Cons a xs)
  obtain x v where a: "a = (x, v)" by (cases a)
  from Cons.prems a have nx: "map_of xs x = None" and d: "distinct (map fst xs)"
    by (auto simp: map_of_eq_None_iff)
  show ?case
    using Cons.IH [OF d] nx by (auto simp: a map_add_def split: option.splits)
qed

lemma map_of_filesSummary:
  "map_of (filesSummary d) k = (if k = ''total'' then None else map_of d k)"
  unfolding filesSummary_def by (induction d) auto

lemma treeLookup_filesSummary:
  "treeLookup (filesSummary d) k b = (if k = ''total'' then None else treeLookup d k b)"
  by (simp add: treeLookup_def map_of_filesSummary)

lemma treeEntries_member:
  "((k, b), v) \<in> set (treeEntries js) \<longleftrightarrow>
     (\<exists>p. (p, v) \<in> set js \<and> p \<noteq> ''total'' \<and> pathWithoutFile p = k \<and> lastSlice p = b)"
  by (auto simp: treeEntries_def)

lemma keys_split_inj:
  assumes "\<forall>p\<in>fst ` set js. p \<noteq> ''total'' \<and> CHR ''/'' \<notin> set p \<longrightarrow> CHR ''/'' # p \<notin> fst ` set js"
    and "p \<in> fst ` set js" and "q \<in> fst ` set js" and "p \<noteq> ''total''" and "q \<noteq> ''total''"
    and "pathWithoutFile p = pathWithoutFile q" and "lastSlice p = lastSlice q"
  shows "p = q"
proof -
  from split_path_inj [OF assms(6,7)] consider "p = q"
    | "CHR ''/'' \<notin> set p" "q = CHR ''/'' # p"
    | "CHR ''/'' \<notin> set q" "p = CHR ''/'' # q"
    by metis
  then show ?thesis
  proof cases
    case 1
    then show ?thesis .
  next
    case 2
    with assms(1,2,3,4) show ?thesis by metis
  next
    case 3
    with assms(1,2,3,5) show ?thesis by metis
  qed
qed

lemma treeEntries_distinct:
  assumes "distinct (map fst js)"
    and "\<forall>p\<in>fst ` set js. p \<noteq> ''total'' \<and> CHR ''/'' \<notin> set p \<longrightarrow> CHR ''/'' # p \<notin> fst ` set js"
  shows "distinct (map fst (treeEntries js))"
proof -
  let ?keys = "filter (\<lambda>p. p \<noteq> ''total'') (map fst js)"
  have m: "map fst (treeEntries js) = map (\<lambda>p. (pathWithoutFile p, lastSlice p)) ?keys"
    unfolding treeEntries_def by (induction js) auto
  have d: "distinct ?keys" using assms(1) by simp
  have i: "inj_on (\<lambda>p. (pathWithoutFile p, lastSlice p)) (set ?keys)"
  proof (rule inj_onI)
    fix p q assume p: "p \<in> set ?keys" and q: "q \<in> set ?keys"
      and e: "(pathWithoutFile p, lastSlice p) = (pathWithoutFile q, lastSlice q)"
    from p q have "p \<in> fst ` set js" "q \<in> fst ` set js" "p \<noteq> ''total''" "q \<noteq> ''total''"
      by auto
    with keys_split_inj [OF assms(2), of p q] e show "p = q" by simp
  qed
  show ?thesis unfolding m using d i by (simp add: distinct_map)
qed


section \<open>Lemmas on the loading of the summary\<close>

lemma replaceFirst_prefix: "replaceFirst pat rep (pat @ rest) = rep @ rest"
proof (cases "pat @ rest")
  case Nil
  then show ?thesis by simp
next
  case (Cons c cs)
  have t: "take (length pat) (c # cs) = pat" "drop (length pat) (c # cs) = rest"
    unfolding Cons [symmetric] by simp_all
  show ?thesis
    unfolding Cons by (simp add: t)
qed

section \<open>The claims\<close>

text \<open>
  Claim C1, as the code has it. A range that is still open when the stream ends is not
  flushed: the \<^verbatim>\<open>close\<close> handler builds the tree from \<^verbatim>\<open>jsonSummary\<close> alone. The open
  range is closed by the next line that is neither a file marker nor an uncovered record
  (the \<^verbatim>\<open>end_of_record\<close> of an lcov trace is one). When the summary can take a range for
  the current file (the file has no entry and its name is not inherited from
  \<^verbatim>\<open>Object.prototype\<close>, or its entry is falsy, or is an object whose \<^verbatim>\<open>uncovered\<close> is
  missing, falsy or an array), that line returns and appends the range exactly once, as
  \<open>begin\<close> or \<open>begin-end\<close>, to the uncovered sequence of the current file; after it
  nothing is open and no other entry has changed. When the file has no entry and its name
  is inherited (\<^verbatim>\<open>constructor\<close>, \<^verbatim>\<open>toString\<close> and the like, \<^verbatim>\<open>__proto__\<close> set aside), the
  line returns as well, nothing is open after it, and the summary is what it was: the
  range is lost.
\<close>

theorem open_range_flushed_by_next_closing_line:
  assumes "readLines st ls = Inr st1" and "isRecordingUncovered st1"
    and "reSF l = None" and "reDA l = None"
  shows "(acceptsRange (jsonSummary st1) (propertyKey (filename st1)) \<longrightarrow>
      (\<exists>st2. readLines st (ls @ [l]) = Inr st2
         \<and> \<not> isRecordingUncovered st2 \<and> filename st2 = filename st1
         \<and> uncoveredOf (jsonSummary st2) (propertyKey (filename st1)) =
             uncoveredOf (jsonSummary st1) (propertyKey (filename st1))
               @ [JStr (uncoveredString (uncoveredBeginning st1) (uncoveredEnd st1))]
         \<and> (\<forall>k. k \<noteq> propertyKey (filename st1) \<longrightarrow>
               map_of (jsonSummary st2) k = map_of (jsonSummary st1) k)))
    \<and> (map_of (jsonSummary st1) (propertyKey (filename st1)) = None
         \<and> inherited (propertyKey (filename st1))
         \<and> propertyKey (filename st1) \<noteq> ''__proto__'' \<longrightarrow>
       readLines st (ls @ [l]) = Inr (st1\<lparr>isRecordingUncovered := False\<rparr>))"
proof (intro conjI impI)
  let ?k = "propertyKey (filename st1)"
  let ?s = "uncoveredString (uncoveredBeginning st1) (uncoveredEnd st1)"
  have run: "readLines st (ls @ [l]) = onLine st1 l"
    using assms(1) by (simp add: readLines_append split: sum.splits)
  {
    assume acc: "acceptsRange (jsonSummary st1) ?k"
    from recordRange_returns [OF acc] obtain js where
      js: "recordRange (jsonSummary st1) ?k ?s = Inr js" by blast
    let ?st2 = "st1\<lparr>jsonSummary := js, isRecordingUncovered := False\<rparr>"
    have "readLines st (ls @ [l]) = Inr ?st2"
      using assms(2,3,4) js by (simp add: run onLine_close)
    moreover have "uncoveredOf (jsonSummary ?st2) ?k = uncoveredOf (jsonSummary st1) ?k @ [JStr ?s]"
      using recordRange_uncovered [OF js acceptsRange_not_inherited [OF acc]] by simp
    moreover have "\<forall>k. k \<noteq> ?k \<longrightarrow> map_of (jsonSummary ?st2) k = map_of (jsonSummary st1) k"
      using recordRange_other [OF js] by simp
    ultimately show "\<exists>st2. readLines st (ls @ [l]) = Inr st2
         \<and> \<not> isRecordingUncovered st2 \<and> filename st2 = filename st1
         \<and> uncoveredOf (jsonSummary st2) ?k = uncoveredOf (jsonSummary st1) ?k @ [JStr ?s]
         \<and> (\<forall>k. k \<noteq> ?k \<longrightarrow> map_of (jsonSummary st2) k = map_of (jsonSummary st1) k)"
      by (intro exI [of _ ?st2]) simp
  }
  {
    assume "map_of (jsonSummary st1) ?k = None \<and> inherited ?k \<and> ?k \<noteq> ''__proto__''"
    then have "recordRange (jsonSummary st1) ?k ?s = Inr (jsonSummary st1)"
      by (simp add: recordRange_inherited)
    then show "readLines st (ls @ [l]) = Inr (st1\<lparr>isRecordingUncovered := False\<rparr>)"
      using assms(2,3,4) by (simp add: run onLine_close)
  }
qed

theorem open_range_flushed_by_next_closing_line_witness:
  "readLines (initialParser []) ([''SF:foo.js'', ''DA:5,0''] @ [''end_of_record'']) =
     Inr \<lparr>filename = Some ''foo.js'', isRecordingUncovered = False,
          uncoveredBeginning = 5, uncoveredEnd = 5,
          jsonSummary = [(''foo.js'', JObj [(''uncovered'', JArr [JStr ''5''])])]\<rparr>
   \<and> uncoveredOf [(''foo.js'', JObj [(''uncovered'', JArr [JStr ''5''])])] ''foo.js'' =
       uncoveredOf [] ''foo.js'' @ [JStr (uncoveredString 5 5)]
   \<and> readLines (initialParser []) ([''SF:toString'', ''DA:5,0''] @ [''end_of_record'']) =
     Inr \<lparr>filename = Some ''toString'', isRecordingUncovered = False,
          uncoveredBeginning = 5, uncoveredEnd = 5, jsonSummary = []\<rparr>"
proof -
  let ?st1 = "\<lparr>filename = Some ''foo.js'', isRecordingUncovered = True,
          uncoveredBeginning = 5, uncoveredEnd = 5, jsonSummary = []\<rparr>"
  let ?st2 = "\<lparr>filename = Some ''foo.js'', isRecordingUncovered = False,
          uncoveredBeginning = 5, uncoveredEnd = 5,
          jsonSummary = [(''foo.js'', JObj [(''uncovered'', JArr [JStr ''5''])])]\<rparr>"
  let ?st3 = "\<lparr>filename = Some ''toString'', isRecordingUncovered = True,
          uncoveredBeginning = 5, uncoveredEnd = 5, jsonSummary = []\<rparr>"
  have a: "readLines (initialParser []) [''SF:foo.js'', ''DA:5,0''] = Inr ?st1"
    by code_simp
  have b: "isRecordingUncovered ?st1" by simp
  have c: "reSF ''end_of_record'' = None" by code_simp
  have d: "reDA ''end_of_record'' = None" by code_simp
  have e: "acceptsRange (jsonSummary ?st1) (propertyKey (filename ?st1))" by code_simp
  have f: "readLines (initialParser []) ([''SF:foo.js'', ''DA:5,0''] @ [''end_of_record'']) = Inr ?st2"
    by code_simp
  from open_range_flushed_by_next_closing_line [OF a b c d] e f
  have 1: "uncoveredOf (jsonSummary ?st2) (propertyKey (filename ?st1)) =
             uncoveredOf (jsonSummary ?st1) (propertyKey (filename ?st1))
               @ [JStr (uncoveredString (uncoveredBeginning ?st1) (uncoveredEnd ?st1))]"
    by auto
  have g: "readLines (initialParser []) [''SF:toString'', ''DA:5,0''] = Inr ?st3"
    by code_simp
  have h: "isRecordingUncovered ?st3" by simp
  have i: "map_of (jsonSummary ?st3) (propertyKey (filename ?st3)) = None
         \<and> inherited (propertyKey (filename ?st3))
         \<and> propertyKey (filename ?st3) \<noteq> ''__proto__''" by code_simp
  from open_range_flushed_by_next_closing_line [OF g h c d] i
  have 2: "readLines (initialParser []) ([''SF:toString'', ''DA:5,0''] @ [''end_of_record'']) =
      Inr (?st3\<lparr>isRecordingUncovered := False\<rparr>)"
    by blast
  from f 1 2 show ?thesis by (simp add: propertyKey_def)
qed

text \<open>
  Claim C1 as the specification states it fails: the trace \<^verbatim>\<open>SF:foo.js\<close>, \<^verbatim>\<open>DA:5,0\<close> ends
  while the range 5 is open, and the tree built at the end of the stream is empty.
\<close>

theorem open_range_dropped_at_end_of_stream:
  "parseTrace [] [''SF:foo.js'', ''DA:5,0''] =
     Inr \<lparr>filename = Some ''foo.js'', isRecordingUncovered = True,
          uncoveredBeginning = 5, uncoveredEnd = 5, jsonSummary = []\<rparr>
   \<and> treeOfTrace [] [''SF:foo.js'', ''DA:5,0''] = Inr (None, [])"
  by code_simp

text \<open>
  Claim C2, as the code has it. An uncovered record that is read while a range is open
  moves the end of the range to its line number, contiguous or not, and closes nothing.
  The records \<^verbatim>\<open>DA:5,0\<close>, \<^verbatim>\<open>DA:6,0\<close>, \<^verbatim>\<open>DA:8,0\<close> under \<^verbatim>\<open>foo.js\<close> yield the one range
  \<open>5-8\<close> when a covered record follows, and leave the range from 5 to 8 open, with
  nothing recorded, when the trace ends there.
\<close>

theorem uncovered_record_moves_end_of_open_range:
  "(isRecordingUncovered st \<and> reSF l = None \<and> reDA l = Some n \<longrightarrow>
      onLine st l = Inr (st\<lparr>uncoveredEnd := n\<rparr>))
   \<and> (\<exists>st'. parseTrace [] [''SF:foo.js'', ''DA:5,0'', ''DA:6,0'', ''DA:8,0'', ''DA:9,1''] = Inr st'
         \<and> uncoveredOf (jsonSummary st') ''foo.js'' = [JStr ''5-8''])
   \<and> (\<exists>st'. parseTrace [] [''SF:foo.js'', ''DA:5,0'', ''DA:6,0'', ''DA:8,0''] = Inr st'
         \<and> isRecordingUncovered st' \<and> uncoveredBeginning st' = 5 \<and> uncoveredEnd st' = 8
         \<and> uncoveredOf (jsonSummary st') ''foo.js'' = [])"
proof (intro conjI impI)
  assume "isRecordingUncovered st \<and> reSF l = None \<and> reDA l = Some n"
  then show "onLine st l = Inr (st\<lparr>uncoveredEnd := n\<rparr>)"
    by (simp add: onLine_extend)
next
  have "parseTrace [] [''SF:foo.js'', ''DA:5,0'', ''DA:6,0'', ''DA:8,0'', ''DA:9,1''] =
     Inr \<lparr>filename = Some ''foo.js'', isRecordingUncovered = False,
          uncoveredBeginning = 5, uncoveredEnd = 8,
          jsonSummary = [(''foo.js'', JObj [(''uncovered'', JArr [JStr ''5-8''])])]\<rparr>"
    by code_simp
  then show "\<exists>st'. parseTrace [] [''SF:foo.js'', ''DA:5,0'', ''DA:6,0'', ''DA:8,0'', ''DA:9,1''] = Inr st'
         \<and> uncoveredOf (jsonSummary st') ''foo.js'' = [JStr ''5-8'']"
    by (simp add: uncoveredOf_def)
next
  have "parseTrace [] [''SF:foo.js'', ''DA:5,0'', ''DA:6,0'', ''DA:8,0''] =
     Inr \<lparr>filename = Some ''foo.js'', isRecordingUncovered = True,
          uncoveredBeginning = 5, uncoveredEnd = 8, jsonSummary = []\<rparr>"
    by code_simp
  then show "\<exists>st'. parseTrace [] [''SF:foo.js'', ''DA:5,0'', ''DA:6,0'', ''DA:8,0''] = Inr st'
         \<and> isRecordingUncovered st' \<and> uncoveredBeginning st' = 5 \<and> uncoveredEnd st' = 8
         \<and> uncoveredOf (jsonSummary st') ''foo.js'' = []"
    by (simp add: uncoveredOf_def)
qed

theorem uncovered_record_moves_end_of_open_range_witness:
  "onLine \<lparr>filename = Some ''foo.js'', isRecordingUncovered = True,
          uncoveredBeginning = 5, uncoveredEnd = 6, jsonSummary = []\<rparr> ''DA:8,0'' =
     Inr \<lparr>filename = Some ''foo.js'', isRecordingUncovered = True,
          uncoveredBeginning = 5, uncoveredEnd = 8, jsonSummary = []\<rparr>"
proof -
  let ?st = "\<lparr>filename = Some ''foo.js'', isRecordingUncovered = True,
          uncoveredBeginning = 5, uncoveredEnd = 6, jsonSummary = []\<rparr>"
  have a: "isRecordingUncovered ?st \<and> reSF ''DA:8,0'' = None \<and> reDA ''DA:8,0'' = Some 8"
    by code_simp
  from uncovered_record_moves_end_of_open_range [of ?st "''DA:8,0''" 8] a show ?thesis
    by simp
qed

text \<open>
  Claim C2 as the specification states it fails: the trace of its own example, closed by
  the covered record \<^verbatim>\<open>DA:9,1\<close>, yields \<open>5-8\<close> and not \<open>5-6\<close>, \<open>8\<close>.
\<close>

theorem gap_in_line_numbers_does_not_split_range:
  "parseTrace [] [''SF:foo.js'', ''DA:5,0'', ''DA:6,0'', ''DA:8,0'', ''DA:9,1''] =
     Inr \<lparr>filename = Some ''foo.js'', isRecordingUncovered = False,
          uncoveredBeginning = 5, uncoveredEnd = 8,
          jsonSummary = [(''foo.js'', JObj [(''uncovered'', JArr [JStr ''5-8''])])]\<rparr>
   \<and> uncoveredOf [(''foo.js'', JObj [(''uncovered'', JArr [JStr ''5-8''])])] ''foo.js''
       \<noteq> [JStr ''5-6'', JStr ''8'']"
  by code_simp



text \<open>
  Claim C4. Without recursion, \<^verbatim>\<open>sumCoverage\<close> on an object returns, for each of the four
  dimensions on its own, the sums of \<^verbatim>\<open>total\<close>, \<^verbatim>\<open>covered\<close> and \<^verbatim>\<open>skipped\<close> over the entries
  whose key matches \<^verbatim>\<open>/^.+\.js$/m\<close>, a missing dimension and a missing or non-numeric field
  adding nothing, and the percentage computed from the summed counts. The one failure
  is the TypeError of \<^verbatim>\<open>entry.lines\<close> when a matching entry is \<^verbatim>\<open>null\<close> itself. The sums
  are those of the program's arithmetic, taken in the order of the keys; when the
  contributions to a sum are natural numbers whose exact sum is at most \<open>2\<^sup>5\<^sup>3\<close>, this is
  the exact sum.
\<close>

theorem flat_aggregate_is_componentwise_sum:
  "sumCoverage (JObj kvs) False =
     (if \<exists>(k, entry)\<in>set kvs. isJsFileRe k \<and> entry = JNull then Inl TypeError
      else Inr \<lparr>sum_lines = aggregateOf kvs ''lines'',
                sum_functions = aggregateOf kvs ''functions'',
                sum_statements = aggregateOf kvs ''statements'',
                sum_branches = aggregateOf kvs ''branches''\<rparr>)
   \<and> (list_all isCount (counted kvs name f) \<and> exactSum kvs name f \<le> 2 ^ 53 \<longrightarrow>
        sumOver kvs name f = Finite (exactSum kvs name f))"
proof
  show "sumCoverage (JObj kvs) False =
     (if \<exists>(k, entry)\<in>set kvs. isJsFileRe k \<and> entry = JNull then Inl TypeError
      else Inr \<lparr>sum_lines = aggregateOf kvs ''lines'',
                sum_functions = aggregateOf kvs ''functions'',
                sum_statements = aggregateOf kvs ''statements'',
                sum_branches = aggregateOf kvs ''branches''\<rparr>)"
  proof (cases "\<exists>(k, entry)\<in>set kvs. isJsFileRe k \<and> entry = JNull")
    case True
    then show ?thesis by (simp add: sumObject_flat_error)
  next
    case False
    then show ?thesis
      by (simp add: sumObject_flat computePcts_def zeroSums_def computePct_plusStat_zero)
  qed
  show "list_all isCount (counted kvs name f) \<and> exactSum kvs name f \<le> 2 ^ 53 \<longrightarrow>
        sumOver kvs name f = Finite (exactSum kvs name f)"
    using sumOver_counts by blast
qed

theorem flat_aggregate_is_componentwise_sum_witness:
  "sumCoverage (JObj [(''a.js'', JObj [(''lines'', JObj [(''total'', JNum (Finite 4)), (''covered'', JNum (Finite 1))])]),
                      (''b.js'', JObj [(''lines'', JObj [(''total'', JNum (Finite 4)), (''covered'', JStr ''3'')])]),
                      (''c.ts'', JObj [(''lines'', JObj [(''total'', JNum (Finite 9)), (''covered'', JNum (Finite 9))])]),
                      (''d.js'', JObj [])]) False =
     Inr \<lparr>sum_lines = \<lparr>stat_total = Finite 8, stat_covered = Finite 1, stat_skipped = Finite 0,
                        stat_pct = Finite (25 / 2)\<rparr>,
          sum_functions = zeroStat, sum_statements = zeroStat, sum_branches = zeroStat\<rparr>
   \<and> sumOver [(''a.js'', JObj [(''lines'', JObj [(''total'', JNum (Finite 4)), (''covered'', JNum (Finite 1))])]),
              (''b.js'', JObj [(''lines'', JObj [(''total'', JNum (Finite 4)), (''covered'', JStr ''3'')])]),
              (''c.ts'', JObj [(''lines'', JObj [(''total'', JNum (Finite 9)), (''covered'', JNum (Finite 9))])]),
              (''d.js'', JObj [])] ''lines'' ''total'' = Finite 8"
proof -
  let ?kvs = "[(''a.js'', JObj [(''lines'', JObj [(''total'', JNum (Finite 4)), (''covered'', JNum (Finite 1))])]),
               (''b.js'', JObj [(''lines'', JObj [(''total'', JNum (Finite 4)), (''covered'', JStr ''3'')])]),
               (''c.ts'', JObj [(''lines'', JObj [(''total'', JNum (Finite 9)), (''covered'', JNum (Finite 9))])]),
               (''d.js'', JObj [])]"
  have a: "\<not> (\<exists>(k, entry)\<in>set ?kvs. isJsFileRe k \<and> entry = JNull)" by simp
  have b: "aggregateOf ?kvs ''lines'' = \<lparr>stat_total = Finite 8, stat_covered = Finite 1,
      stat_skipped = Finite 0, stat_pct = Finite (25 / 2)\<rparr>"
    by code_simp
  have c: "aggregateOf ?kvs ''functions'' = zeroStat"
    "aggregateOf ?kvs ''statements'' = zeroStat"
    "aggregateOf ?kvs ''branches'' = zeroStat"
    by code_simp+
  have d: "list_all isCount (counted ?kvs ''lines'' ''total'')" by code_simp
  have e: "exactSum ?kvs ''lines'' ''total'' = 8" by code_simp
  note t = flat_aggregate_is_componentwise_sum [of ?kvs "''lines''" "''total''"]
  from t a b c have 1: "sumCoverage (JObj ?kvs) False =
     Inr \<lparr>sum_lines = \<lparr>stat_total = Finite 8, stat_covered = Finite 1, stat_skipped = Finite 0,
                        stat_pct = Finite (25 / 2)\<rparr>,
          sum_functions = zeroStat, sum_statements = zeroStat, sum_branches = zeroStat\<rparr>"
    by (simp only: if_False)
  from t d e have 2: "sumOver ?kvs ''lines'' ''total'' = Finite 8" by simp
  from 1 2 show ?thesis by (rule conjI)
qed

text \<open>
  Claim C5, as the code has it. Take a flat summary with unique keys in which no file lies
  in a directory that is itself named \<^verbatim>\<open>total\<close> or like a property that every object
  inherits from \<^verbatim>\<open>Object.prototype\<close>, no file is named \<^verbatim>\<open>__proto__\<close>, and no key
  without a slash occurs a second time with one slash in front. Then the \<^verbatim>\<open>close\<close>
  handler builds a tree: every key other than \<^verbatim>\<open>total\<close> is stored under its directory
  key and its file key; whatever the tree holds under a pair comes from exactly one key;
  the tree has no top-level key \<^verbatim>\<open>total\<close>, whose value is carried apart. The pair of a
  key without a slash is the empty string and the key; the pair of any other key is what
  stands before and after its last slash.
\<close>

theorem tree_holds_each_path_under_one_pair:
  assumes "distinct (map fst js)"
    and "\<forall>p\<in>fst ` set js. p \<noteq> ''total'' \<longrightarrow>
           pathWithoutFile p \<noteq> ''total'' \<and> \<not> inherited (pathWithoutFile p)
           \<and> lastSlice p \<noteq> ''__proto__''"
    and "\<forall>p\<in>fst ` set js. p \<noteq> ''total'' \<and> CHR ''/'' \<notin> set p \<longrightarrow> CHR ''/'' # p \<notin> fst ` set js"
  shows "\<exists>tot files. closeTree js = Inr (tot, files)
    \<and> (\<forall>(p, v)\<in>set js. p \<noteq> ''total'' \<longrightarrow>
            treeLookup files (pathWithoutFile p) (lastSlice p) = Some v)
    \<and> (\<forall>d b v. treeLookup files d b = Some v \<longrightarrow>
          (\<exists>p. (p, v) \<in> set js \<and> p \<noteq> ''total'' \<and> pathWithoutFile p = d \<and> lastSlice p = b
             \<and> (\<forall>q\<in>fst ` set js. q \<noteq> ''total'' \<and> pathWithoutFile q = d \<and> lastSlice q = b
                   \<longrightarrow> q = p)))
    \<and> map_of files ''total'' = None \<and> tot = map_of js ''total''
    \<and> (\<forall>p. (CHR ''/'' \<notin> set p \<longrightarrow> pathWithoutFile p = [] \<and> lastSlice p = p)
           \<and> (CHR ''/'' \<in> set p \<longrightarrow>
                p = pathWithoutFile p @ ''/'' @ lastSlice p \<and> CHR ''/'' \<notin> set (lastSlice p)))"
proof -
  have start: "directoriesAreObjects []" by (simp add: directoriesAreObjects_def)
  from divideAll_returns [OF start assms(2)] obtain d where d: "divideAll [] js = Inr d"
    by blast
  define tot where "tot = totalSummary d"
  define files where "files = filesSummary d"
  note tot = tot_def
  note files = files_def
  have ct: "closeTree js = Inr (tot, files)"
    by (simp add: closeTree_def d tot files)
  from assms(2) have dirs: "\<forall>p\<in>fst ` set js. p \<noteq> ''total'' \<longrightarrow>
           pathWithoutFile p \<noteq> ''total'' \<and> \<not> inherited (pathWithoutFile p)"
    by blast
  note inv = divideAll_inv [OF d start dirs]
  have te: "distinct (map fst (treeEntries js))"
    by (rule treeEntries_distinct [OF assms(1,3)])
  have look: "treeLookup files k b = map_of (treeEntries js) (k, b)" if "k \<noteq> ''total''" for k b
  proof -
    from inv that have "treeLookup d k b =
        (case map_of (rev (treeEntries js)) (k, b) of Some v \<Rightarrow> Some v | None \<Rightarrow> treeLookup [] k b)"
      by blast
    also have "\<dots> = map_of (rev (treeEntries js)) (k, b)"
      by (simp add: treeLookup_def split: option.splits)
    also have "\<dots> = map_of (treeEntries js) (k, b)"
      by (rule map_of_rev_distinct [OF te])
    finally show ?thesis using that by (simp add: files treeLookup_filesSummary)
  qed
  have look_total: "treeLookup files ''total'' b = None" for b
    by (simp add: files treeLookup_filesSummary)
  have 1: "treeLookup files (pathWithoutFile p) (lastSlice p) = Some v"
    if "(p, v) \<in> set js" "p \<noteq> ''total''" for p v
  proof -
    from that assms(2) have dir: "pathWithoutFile p \<noteq> ''total''" by force
    from that have "((pathWithoutFile p, lastSlice p), v) \<in> set (treeEntries js)"
      by (auto simp: treeEntries_member)
    with te have "map_of (treeEntries js) (pathWithoutFile p, lastSlice p) = Some v"
      by simp
    with look [OF dir] show ?thesis by simp
  qed
  have 2: "\<exists>p. (p, v) \<in> set js \<and> p \<noteq> ''total'' \<and> pathWithoutFile p = k \<and> lastSlice p = b
             \<and> (\<forall>q\<in>fst ` set js. q \<noteq> ''total'' \<and> pathWithoutFile q = k \<and> lastSlice q = b
                   \<longrightarrow> q = p)"
    if l: "treeLookup files k b = Some v" for k b v
  proof -
    from l look_total have k: "k \<noteq> ''total''" by auto
    from l look [OF k] have "((k, b), v) \<in> set (treeEntries js)"
      by (simp add: map_of_SomeD)
    then obtain p where p: "(p, v) \<in> set js" "p \<noteq> ''total''"
      "pathWithoutFile p = k" "lastSlice p = b"
      by (auto simp: treeEntries_member)
    have "q = p" if "q \<in> fst ` set js" "q \<noteq> ''total''" "pathWithoutFile q = k" "lastSlice q = b" for q
    proof -
      from p(1) have "p \<in> fst ` set js" by force
      from keys_split_inj [OF assms(3) that(1) this that(2) p(2)] that(3,4) p(3,4)
      show ?thesis by simp
    qed
    with p show ?thesis by blast
  qed
  have 3: "map_of files ''total'' = None"
    by (simp add: files map_of_filesSummary)
  have 4: "tot = map_of js ''total''"
  proof -
    from inv have "map_of d ''total'' =
        (case map_of (rev js) ''total'' of Some v \<Rightarrow> Some v | None \<Rightarrow> map_of [] ''total'')"
      by blast
    also have "\<dots> = map_of (rev js) ''total''"
      by (simp split: option.splits)
    also have "\<dots> = map_of js ''total''"
      by (rule map_of_rev_distinct [OF assms(1)])
    finally show ?thesis by (simp add: tot totalSummary_def)
  qed
  have 5: "(CHR ''/'' \<notin> set p \<longrightarrow> pathWithoutFile p = [] \<and> lastSlice p = p)
           \<and> (CHR ''/'' \<in> set p \<longrightarrow>
                p = pathWithoutFile p @ ''/'' @ lastSlice p \<and> CHR ''/'' \<notin> set (lastSlice p))" for p
    using path_without_slash [of p] path_with_slash [of p] by blast
  from 1 have all1: "\<forall>(p, v)\<in>set js. p \<noteq> ''total'' \<longrightarrow>
            treeLookup files (pathWithoutFile p) (lastSlice p) = Some v"
    by blast
  have pairs: "\<forall>d b v. treeLookup files d b = Some v \<longrightarrow>
          (\<exists>p. (p, v) \<in> set js \<and> p \<noteq> ''total'' \<and> pathWithoutFile p = d \<and> lastSlice p = b
             \<and> (\<forall>q\<in>fst ` set js. q \<noteq> ''total'' \<and> pathWithoutFile q = d \<and> lastSlice q = b
                   \<longrightarrow> q = p))"
    using 2 by blast
  have splits: "\<forall>p. (CHR ''/'' \<notin> set p \<longrightarrow> pathWithoutFile p = [] \<and> lastSlice p = p)
           \<and> (CHR ''/'' \<in> set p \<longrightarrow>
                p = pathWithoutFile p @ ''/'' @ lastSlice p \<and> CHR ''/'' \<notin> set (lastSlice p))"
    by (intro allI) (rule 5)
  show ?thesis
    by (intro exI [of _ tot] exI [of _ files] conjI) (rule ct all1 pairs 3 4 splits)+
qed

theorem tree_holds_each_path_under_one_pair_witness:
  "closeTree [(''total'', JNum (Finite 1)), (''a.js'', JNum (Finite 2)), (''src/lib/b.js'', JNum (Finite 3))] =
     Inr (Some (JNum (Finite 1)), [('''', JObj [(''a.js'', JNum (Finite 2))]), (''src/lib'', JObj [(''b.js'', JNum (Finite 3))])])
   \<and> treeLookup [('''', JObj [(''a.js'', JNum (Finite 2))]), (''src/lib'', JObj [(''b.js'', JNum (Finite 3))])]
        (pathWithoutFile ''src/lib/b.js'') (lastSlice ''src/lib/b.js'') = Some (JNum (Finite 3))
   \<and> pathWithoutFile ''src/lib/b.js'' = ''src/lib'' \<and> lastSlice ''src/lib/b.js'' = ''b.js''
   \<and> treeLookup [('''', JObj [(''a.js'', JNum (Finite 2))]), (''src/lib'', JObj [(''b.js'', JNum (Finite 3))])]
        (pathWithoutFile ''a.js'') (lastSlice ''a.js'') = Some (JNum (Finite 2))
   \<and> pathWithoutFile ''a.js'' = '''' \<and> lastSlice ''a.js'' = ''a.js''"
proof -
  let ?js = "[(''total'', JNum (Finite 1)), (''a.js'', JNum (Finite 2)), (''src/lib/b.js'', JNum (Finite 3))]"
  let ?files = "[('''', JObj [(''a.js'', JNum (Finite 2))]), (''src/lib'', JObj [(''b.js'', JNum (Finite 3))])]"
  have a: "distinct (map fst ?js)" by simp
  have b: "closeTree ?js = Inr (Some (JNum (Finite 1)), ?files)" by code_simp
  have c: "\<forall>p\<in>fst ` set ?js. p \<noteq> ''total'' \<longrightarrow>
           pathWithoutFile p \<noteq> ''total'' \<and> \<not> inherited (pathWithoutFile p)
           \<and> lastSlice p \<noteq> ''__proto__''"
    by code_simp
  have d: "\<forall>p\<in>fst ` set ?js. p \<noteq> ''total'' \<and> CHR ''/'' \<notin> set p \<longrightarrow> CHR ''/'' # p \<notin> fst ` set ?js"
    by code_simp
  have e: "pathWithoutFile ''src/lib/b.js'' = ''src/lib''" "lastSlice ''src/lib/b.js'' = ''b.js''"
    "pathWithoutFile ''a.js'' = ''''" "lastSlice ''a.js'' = ''a.js''"
    by code_simp+
  from tree_holds_each_path_under_one_pair [OF a c d] obtain tot files where
    "closeTree ?js = Inr (tot, files) \<and>
     (\<forall>(p, v)\<in>set ?js. p \<noteq> ''total'' \<longrightarrow>
            treeLookup files (pathWithoutFile p) (lastSlice p) = Some v)"
    by (elim exE conjE) (rule that, rule conjI)
  with b have "\<forall>(p, v)\<in>set ?js. p \<noteq> ''total'' \<longrightarrow>
            treeLookup ?files (pathWithoutFile p) (lastSlice p) = Some v"
    by simp
  then have "treeLookup ?files (pathWithoutFile ''src/lib/b.js'') (lastSlice ''src/lib/b.js'') = Some (JNum (Finite 3))"
    "treeLookup ?files (pathWithoutFile ''a.js'') (lastSlice ''a.js'') = Some (JNum (Finite 2))"
    by simp_all
  with b e show ?thesis by simp
qed

text \<open>
  Claim C5 as the specification states it fails on each of the three conditions. The one
  file of the directory \<^verbatim>\<open>total\<close> goes into the total, and the tree is empty. The keys
  \<^verbatim>\<open>a.js\<close> and \<^verbatim>\<open>/a.js\<close> have the same pair, and the tree keeps the second value only.
  The one file of the directory \<^verbatim>\<open>constructor\<close> is hung on the inherited function, and
  the tree is empty.
\<close>

theorem directory_named_total_is_lost:
  "closeTree [(''total/a.js'', JObj [(''uncovered'', JArr [JStr ''5''])])] =
     Inr (Some (JObj [(''a.js'', JObj [(''uncovered'', JArr [JStr ''5''])])]), [])
   \<and> pathWithoutFile ''total/a.js'' = ''total'' \<and> lastSlice ''total/a.js'' = ''a.js''
   \<and> treeLookup [] ''total'' ''a.js'' = None
   \<and> closeTree [(''a.js'', JNum (Finite 1)), (''/a.js'', JNum (Finite 2))] = Inr (None, [('''', JObj [(''a.js'', JNum (Finite 2))])])
   \<and> pathWithoutFile ''a.js'' = pathWithoutFile ''/a.js'' \<and> lastSlice ''a.js'' = lastSlice ''/a.js''
   \<and> treeLookup [('''', JObj [(''a.js'', JNum (Finite 2))])] (pathWithoutFile ''a.js'') (lastSlice ''a.js'')
       \<noteq> Some (JNum (Finite 1))
   \<and> closeTree [(''constructor/a.js'', JNum (Finite 1))] = Inr (None, [])
   \<and> pathWithoutFile ''constructor/a.js'' = ''constructor''
   \<and> lastSlice ''constructor/a.js'' = ''a.js''
   \<and> treeLookup [] ''constructor'' ''a.js'' = None"
  by code_simp

text \<open>
  Claim C6, as the code has it. A file marker replaces the current filename at once and
  changes nothing else: the recording flag and the open range survive it, they are not
  scoped to the file. A range is appended to the file that is current when its closing
  line is read; so the lines read between two file markers keep the filename and change
  no entry of the summary but that of the file which the first marker names.
\<close>

theorem file_marker_replaces_filename_only:
  "(reSF l = Some f \<longrightarrow> onLine st l = Inr (st\<lparr>filename := Some f\<rparr>))
   \<and> ((\<forall>x\<in>set ls. reSF x = None) \<and> readLines st ls = Inr st'
        \<and> k \<noteq> propertyKey (filename st) \<longrightarrow>
        filename st' = filename st \<and> map_of (jsonSummary st') k = map_of (jsonSummary st) k)"
  using onLine_SF [of l f st] readLines_section [of st ls st' k] by blast

theorem file_marker_replaces_filename_only_witness:
  "onLine (initialParser []) ''SF:b.js'' =
     Inr \<lparr>filename = Some ''b.js'', isRecordingUncovered = False,
          uncoveredBeginning = 0, uncoveredEnd = 0, jsonSummary = []\<rparr>
   \<and> readLines \<lparr>filename = Some ''b.js'', isRecordingUncovered = False,
          uncoveredBeginning = 0, uncoveredEnd = 0, jsonSummary = []\<rparr>
        [''DA:7,0'', ''end_of_record''] =
     Inr \<lparr>filename = Some ''b.js'', isRecordingUncovered = False,
          uncoveredBeginning = 7, uncoveredEnd = 7,
          jsonSummary = [(''b.js'', JObj [(''uncovered'', JArr [JStr ''7''])])]\<rparr>
   \<and> map_of [(''b.js'', JObj [(''uncovered'', JArr [JStr ''7''])])] ''a.js'' = map_of [] ''a.js''"
proof -
  let ?st = "\<lparr>filename = Some ''b.js'', isRecordingUncovered = False,
          uncoveredBeginning = 0, uncoveredEnd = 0, jsonSummary = []\<rparr>"
  let ?st' = "\<lparr>filename = Some ''b.js'', isRecordingUncovered = False,
          uncoveredBeginning = 7, uncoveredEnd = 7,
          jsonSummary = [(''b.js'', JObj [(''uncovered'', JArr [JStr ''7''])])]\<rparr>"
  have a: "reSF ''SF:b.js'' = Some ''b.js''" by code_simp
  have b: "\<forall>x\<in>set [''DA:7,0'', ''end_of_record'']. reSF x = None" by code_simp
  have c: "readLines ?st [''DA:7,0'', ''end_of_record''] = Inr ?st'" by code_simp
  have d: "''a.js'' \<noteq> propertyKey (filename ?st)" by (simp add: propertyKey_def)
  have 1: "onLine (initialParser []) ''SF:b.js'' = Inr ((initialParser [])\<lparr>filename := Some ''b.js''\<rparr>)"
    using file_marker_replaces_filename_only [of "''SF:b.js''" "''b.js''" "initialParser []"] a
    by blast
  have 2: "map_of (jsonSummary ?st') ''a.js'' = map_of (jsonSummary ?st) ''a.js''"
    using file_marker_replaces_filename_only
      [of "''SF:b.js''" "''b.js''" ?st "[''DA:7,0'', ''end_of_record'']" ?st' "''a.js''"] b c d
    by blast
  from 1 2 c show ?thesis by (simp add: initialParser_def)
qed

text \<open>
  Claim C6 as the specification states it fails: the record \<^verbatim>\<open>DA:5,0\<close> is read under
  \<^verbatim>\<open>a.js\<close>, the marker of \<^verbatim>\<open>b.js\<close> follows while the range is open, and the range 5 is
  appended to \<^verbatim>\<open>b.js\<close>; \<^verbatim>\<open>a.js\<close> gets nothing.
\<close>

theorem open_range_moves_to_later_file:
  "parseTrace [] [''SF:a.js'', ''DA:5,0'', ''SF:b.js'', ''end_of_record''] =
     Inr \<lparr>filename = Some ''b.js'', isRecordingUncovered = False,
          uncoveredBeginning = 5, uncoveredEnd = 5,
          jsonSummary = [(''b.js'', JObj [(''uncovered'', JArr [JStr ''5''])])]\<rparr>
   \<and> uncoveredOf [(''b.js'', JObj [(''uncovered'', JArr [JStr ''5''])])] ''b.js'' = [JStr ''5'']
   \<and> uncoveredOf [(''b.js'', JObj [(''uncovered'', JArr [JStr ''5''])])] ''a.js'' = []"
  by code_simp




text \<open>
  Claim C8, at the input where the code departs from it. Line 20 computes the project
  path without its trailing slashes and drops the result, so a project path written
  \<^verbatim>\<open>/app/\<close> stays as it is, the pattern of line 28 is \<^verbatim>\<open>/app//\<close>, and the key
  \<^verbatim>\<open>/app/src/a.js\<close> is not made relative; written \<^verbatim>\<open>/app\<close> the same key becomes
  \<^verbatim>\<open>src/a.js\<close>, as does every key that begins with the project path and a slash. The
  replacement is not tied to the front of the key either.
\<close>

theorem trailing_separator_leaves_key_absolute:
  "stripTrailingSlashes ''/app/'' = ''/app''
   \<and> projectPathSetup (Some ''/app/'') dirname = ''/app/''
   \<and> relativeKey (projectPathSetup (Some ''/app/'') dirname) ''/app/src/a.js'' = ''/app/src/a.js''
   \<and> loadSummary (projectPathSetup (Some ''/app/'') dirname) (Some (JObj [(''/app/src/a.js'', JObj [])]))
       = [(''/app/src/a.js'', JObj [])]
   \<and> relativeKey (projectPathSetup (Some ''/app'') dirname) ''/app/src/a.js'' = ''src/a.js''
   \<and> relativeKey (projectPathSetup (Some ''/app'') dirname) ''/srv/app/a.js'' = ''/srva.js''
   \<and> relativeKey projectRoot (projectRoot @ ''/'' @ rest) = rest"
proof -
  have "relativeKey projectRoot (projectRoot @ ''/'' @ rest) = rest"
    using replaceFirst_prefix [of "projectRoot @ ''/''" "[]" rest] by (simp add: relativeKey_def)
  then show ?thesis
    by (simp add: stripTrailingSlashes_def projectPathSetup_def relativeKey_def loadSummary_def
        fromEntries_def)
qed

text \<open>
  Claim C9, as the code has it. The Renderer is no read-only pass. Whenever
  \<^verbatim>\<open>buildTableDepth\<close> returns, the total it leaves is what \<^verbatim>\<open>addColorToStats\<close> returns for
  the total it was given (a missing or falsy total is left alone); every entry of the tree
  under a \<^verbatim>\<open>.js\<close> key is what \<^verbatim>\<open>addColorToStats\<close> returns for that entry, and every other
  entry is what \<^verbatim>\<open>buildTableDepth\<close> leaves of it one level down, the keys staying as they
  are. Whenever \<^verbatim>\<open>addColorToStats\<close> returns, each of the four statistics was there and
  is now the same statistic with its colour written into it when it is an object; every
  other property of the value is what it was. It returns whenever the four statistics are
  objects with a numeric percentage. So the total and the tree are what they were up to
  properties named \<^verbatim>\<open>color\<close>: every \<^verbatim>\<open>total\<close>, \<^verbatim>\<open>covered\<close>, \<^verbatim>\<open>skipped\<close>, \<^verbatim>\<open>pct\<close> and
  \<^verbatim>\<open>uncovered\<close> is unchanged. (A statistic that is an array is outside the model.)
\<close>

theorem rendering_writes_color_and_nothing_else:
  "(buildTableDepth rt tot files depth = Inr (table, tot', files') \<longrightarrow>
      (\<forall>t. tot = Some t \<and> truthy t \<longrightarrow> addColorToStats rt t = Inr (the tot') \<and> tot' \<noteq> None)
      \<and> (\<forall>t. tot = Some t \<and> \<not> truthy t \<longrightarrow> tot' = tot)
      \<and> (tot = None \<longrightarrow> tot' = None)
      \<and> (\<forall>kvs. files = JObj kvs \<longrightarrow>
            (\<exists>kvs'. files' = JObj kvs'
               \<and> list_all2 (renderedEntry rt (if depth \<le> 0 then 1 else depth)) kvs kvs'))
      \<and> eraseColor files' = eraseColor files
      \<and> map_option eraseColor tot' = map_option eraseColor tot)
   \<and> (addColorToStats rt stats = Inr stats' \<longrightarrow>
      (\<forall>n\<in>set statsToProcess. \<exists>s. get_prop stats n = Some s \<and> s \<noteq> JNull)
      \<and> (\<forall>n. get_prop stats' n =
            (if n \<in> set statsToProcess then map_option (withColor rt) (get_prop stats n)
             else get_prop stats n)))
   \<and> ((\<forall>n\<in>set statsToProcess. \<exists>ps p. get_prop stats n = Some (JObj ps)
          \<and> map_of ps ''pct'' = Some (JNum p)) \<longrightarrow>
      (\<exists>stats'. addColorToStats rt stats = Inr stats'))
   \<and> withColor rt (JObj [(''pct'', JNum p)]) = JObj [(''pct'', JNum p), (''color'', JStr (colorOfPct p))]"
proof -
  have d: "distinct statsToProcess" by (simp add: statsToProcess_def)
  have 1: "(\<forall>t. tot = Some t \<and> truthy t \<longrightarrow> addColorToStats rt t = Inr (the tot') \<and> tot' \<noteq> None)
      \<and> (\<forall>t. tot = Some t \<and> \<not> truthy t \<longrightarrow> tot' = tot)
      \<and> (tot = None \<longrightarrow> tot' = None)
      \<and> (\<forall>kvs. files = JObj kvs \<longrightarrow>
            (\<exists>kvs'. files' = JObj kvs'
               \<and> list_all2 (renderedEntry rt (if depth \<le> 0 then 1 else depth)) kvs kvs'))
      \<and> eraseColor files' = eraseColor files
      \<and> map_option eraseColor tot' = map_option eraseColor tot"
    if b: "buildTableDepth rt tot files depth = Inr (table, tot', files')"
  proof -
    from buildTableDepth_totalRows [OF b] obtain t where t: "totalRows rt tot = Inr (t, tot')"
      by blast
    note tc = totalRows_colored [OF t]
    have files: "\<forall>kvs. files = JObj kvs \<longrightarrow>
            (\<exists>kvs'. files' = JObj kvs'
               \<and> list_all2 (renderedEntry rt (if depth \<le> 0 then 1 else depth)) kvs kvs')"
      using b buildTableDepth_rendered by blast
    have er: "eraseColor files' = eraseColor files
        \<and> map_option eraseColor tot' = map_option eraseColor tot"
      using buildTableDepth_erase_all(1) [of rt tot files depth] b by blast
    from tc files er show ?thesis by blast
  qed
  have 2: "(\<forall>n\<in>set statsToProcess. \<exists>s. get_prop stats n = Some s \<and> s \<noteq> JNull)
      \<and> (\<forall>n. get_prop stats' n =
            (if n \<in> set statsToProcess then map_option (withColor rt) (get_prop stats n)
             else get_prop stats n))"
    if "addColorToStats rt stats = Inr stats'"
    using that colorStats_effect [OF _ d, of rt stats stats'] by (simp add: addColorToStats_def)
  have 3: "\<exists>stats'. addColorToStats rt stats = Inr stats'"
    if "\<forall>n\<in>set statsToProcess. \<exists>ps p. get_prop stats n = Some (JObj ps)
          \<and> map_of ps ''pct'' = Some (JNum p)"
    unfolding addColorToStats_def by (rule colorStats_returns [OF d that])
  have 4: "withColor rt (JObj [(''pct'', JNum p)]) =
      JObj [(''pct'', JNum p), (''color'', JStr (colorOfPct p))]"
    by (simp add: withColor_def statColor_number)
  from 1 2 3 4 show ?thesis by blast
qed

theorem rendering_writes_color_and_nothing_else_witness:
  "map_sum id snd
     (buildTableDepth \<lparr>templateString = (\<lambda>v. Inr []), coercedGe = (\<lambda>v k. Inr False)\<rparr>
        (Some (JObj [(''statements'', JObj [(''pct'', JNum (Finite 90))]),
                     (''branches'', JObj [(''pct'', JNum (Finite 60))]),
                     (''functions'', JObj [(''pct'', JNum (Finite 100))]),
                     (''lines'', JObj [(''pct'', JNum (Finite 40))])]))
        (JObj [(''a.js'',
           JObj [(''statements'', JObj [(''pct'', JNum (Finite 100))]),
                 (''branches'', JObj [(''pct'', JNum (Finite 60))]),
                 (''functions'', JObj [(''pct'', JNum (Finite 100))]),
                 (''lines'', JObj [(''pct'', JNum (Finite 40))]),
                 (''uncovered'', JArr [JStr ''5-8''])])]) 0)
   = Inr (Some (JObj [(''statements'', JObj [(''pct'', JNum (Finite 90)), (''color'', JStr ''147317'')]),
                      (''branches'', JObj [(''pct'', JNum (Finite 60)), (''color'', JStr ''c27d15'')]),
                      (''functions'', JObj [(''pct'', JNum (Finite 100)), (''color'', JStr ''147317'')]),
                      (''lines'', JObj [(''pct'', JNum (Finite 40)), (''color'', JStr ''c23815'')])]),
          JObj [(''a.js'',
           JObj [(''statements'', JObj [(''pct'', JNum (Finite 100)), (''color'', JStr ''147317'')]),
                 (''branches'', JObj [(''pct'', JNum (Finite 60)), (''color'', JStr ''c27d15'')]),
                 (''functions'', JObj [(''pct'', JNum (Finite 100)), (''color'', JStr ''147317'')]),
                 (''lines'', JObj [(''pct'', JNum (Finite 40)), (''color'', JStr ''c23815'')]),
                 (''uncovered'', JArr [JStr ''5-8''])])])
   \<and> addColorToStats \<lparr>templateString = (\<lambda>v. Inr []), coercedGe = (\<lambda>v k. Inr False)\<rparr>
        (JObj [(''statements'', JObj [(''pct'', JNum (Finite 90))]),
               (''branches'', JObj [(''pct'', JNum (Finite 60))]),
               (''functions'', JObj [(''pct'', JNum (Finite 100))]),
               (''lines'', JObj [(''pct'', JNum (Finite 40))])])
     = Inr (JObj [(''statements'', JObj [(''pct'', JNum (Finite 90)), (''color'', JStr ''147317'')]),
                  (''branches'', JObj [(''pct'', JNum (Finite 60)), (''color'', JStr ''c27d15'')]),
                  (''functions'', JObj [(''pct'', JNum (Finite 100)), (''color'', JStr ''147317'')]),
                  (''lines'', JObj [(''pct'', JNum (Finite 40)), (''color'', JStr ''c23815'')])])
   \<and> list_all2 (renderedEntry \<lparr>templateString = (\<lambda>v. Inr []), coercedGe = (\<lambda>v k. Inr False)\<rparr> 1)
        [(''a.js'',
           JObj [(''statements'', JObj [(''pct'', JNum (Finite 100))]),
                 (''branches'', JObj [(''pct'', JNum (Finite 60))]),
                 (''functions'', JObj [(''pct'', JNum (Finite 100))]),
                 (''lines'', JObj [(''pct'', JNum (Finite 40))]),
                 (''uncovered'', JArr [JStr ''5-8''])])]
        [(''a.js'',
           JObj [(''statements'', JObj [(''pct'', JNum (Finite 100)), (''color'', JStr ''147317'')]),
                 (''branches'', JObj [(''pct'', JNum (Finite 60)), (''color'', JStr ''c27d15'')]),
                 (''functions'', JObj [(''pct'', JNum (Finite 100)), (''color'', JStr ''147317'')]),
                 (''lines'', JObj [(''pct'', JNum (Finite 40)), (''color'', JStr ''c23815'')]),
                 (''uncovered'', JArr [JStr ''5-8''])])]"
proof -
  let ?rt = "\<lparr>templateString = (\<lambda>v. Inr []), coercedGe = (\<lambda>v k. Inr False)\<rparr>"
  let ?tot = "JObj [(''statements'', JObj [(''pct'', JNum (Finite 90))]),
                     (''branches'', JObj [(''pct'', JNum (Finite 60))]),
                     (''functions'', JObj [(''pct'', JNum (Finite 100))]),
                     (''lines'', JObj [(''pct'', JNum (Finite 40))])]"
  let ?tot' = "JObj [(''statements'', JObj [(''pct'', JNum (Finite 90)), (''color'', JStr ''147317'')]),
                      (''branches'', JObj [(''pct'', JNum (Finite 60)), (''color'', JStr ''c27d15'')]),
                      (''functions'', JObj [(''pct'', JNum (Finite 100)), (''color'', JStr ''147317'')]),
                      (''lines'', JObj [(''pct'', JNum (Finite 40)), (''color'', JStr ''c23815'')])]"
  let ?kvs = "[(''a.js'',
           JObj [(''statements'', JObj [(''pct'', JNum (Finite 100))]),
                 (''branches'', JObj [(''pct'', JNum (Finite 60))]),
                 (''functions'', JObj [(''pct'', JNum (Finite 100))]),
                 (''lines'', JObj [(''pct'', JNum (Finite 40))]),
                 (''uncovered'', JArr [JStr ''5-8''])])]"
  let ?kvs' = "[(''a.js'',
           JObj [(''statements'', JObj [(''pct'', JNum (Finite 100)), (''color'', JStr ''147317'')]),
                 (''branches'', JObj [(''pct'', JNum (Finite 60)), (''color'', JStr ''c27d15'')]),
                 (''functions'', JObj [(''pct'', JNum (Finite 100)), (''color'', JStr ''147317'')]),
                 (''lines'', JObj [(''pct'', JNum (Finite 40)), (''color'', JStr ''c23815'')]),
                 (''uncovered'', JArr [JStr ''5-8''])])]"
  have a: "map_sum id snd (buildTableDepth ?rt (Some ?tot) (JObj ?kvs) 0) = Inr (Some ?tot', JObj ?kvs')"
    by code_simp
  then obtain table where b: "buildTableDepth ?rt (Some ?tot) (JObj ?kvs) 0 = Inr (table, Some ?tot', JObj ?kvs')"
    by (cases "buildTableDepth ?rt (Some ?tot) (JObj ?kvs) 0") auto
  note t = rendering_writes_color_and_nothing_else
    [of ?rt "Some ?tot" "JObj ?kvs" 0 table "Some ?tot'" "JObj ?kvs'", THEN conjunct1, THEN mp, OF b]
  have tr: "Some ?tot = Some ?tot \<and> truthy ?tot" by simp
  from t [THEN conjunct1, THEN spec, THEN mp, OF tr]
  have 1: "addColorToStats ?rt ?tot = Inr ?tot'" by simp
  from t [THEN conjunct2, THEN conjunct2, THEN conjunct2, THEN conjunct1, THEN spec, THEN mp, OF refl]
  have 2: "list_all2 (renderedEntry ?rt 1) ?kvs ?kvs'" by simp
  from a 1 2 show ?thesis by (intro conjI)
qed

text \<open>
  Claim C9 as the specification states it fails: after rendering a tree with one file, the
  FileSummary of the file holds four colours that it did not hold before.
\<close>

theorem rendering_changes_file_summary:
  "map_sum id snd
     (buildTable \<lparr>templateString = (\<lambda>v. Inr []), coercedGe = (\<lambda>v k. Inr False)\<rparr> None
        (JObj [(''src'', JObj [(''a.js'',
           JObj [(''statements'', JObj [(''pct'', JNum (Finite 100))]), (''branches'', JObj [(''pct'', JNum (Finite 60))]),
                 (''functions'', JObj [(''pct'', JNum (Finite 100))]), (''lines'', JObj [(''pct'', JNum (Finite 40))])])])]))
   = Inr (None, JObj [(''src'', JObj [(''a.js'',
           JObj [(''statements'', JObj [(''pct'', JNum (Finite 100)), (''color'', JStr ''147317'')]),
                 (''branches'', JObj [(''pct'', JNum (Finite 60)), (''color'', JStr ''c27d15'')]),
                 (''functions'', JObj [(''pct'', JNum (Finite 100)), (''color'', JStr ''147317'')]),
                 (''lines'', JObj [(''pct'', JNum (Finite 40)), (''color'', JStr ''c23815'')])])])])
   \<and> JObj [(''src'', JObj [(''a.js'',
           JObj [(''statements'', JObj [(''pct'', JNum (Finite 100)), (''color'', JStr ''147317'')]),
                 (''branches'', JObj [(''pct'', JNum (Finite 60)), (''color'', JStr ''c27d15'')]),
                 (''functions'', JObj [(''pct'', JNum (Finite 100)), (''color'', JStr ''147317'')]),
                 (''lines'', JObj [(''pct'', JNum (Finite 40)), (''color'', JStr ''c23815'')])])])]
     \<noteq> JObj [(''src'', JObj [(''a.js'',
           JObj [(''statements'', JObj [(''pct'', JNum (Finite 100))]), (''branches'', JObj [(''pct'', JNum (Finite 60))]),
                 (''functions'', JObj [(''pct'', JNum (Finite 100))]), (''lines'', JObj [(''pct'', JNum (Finite 40))])])])]"
  by code_simp

text \<open>
  Claim C10, as the code has it. Before any file marker the filename is the initial
  \<^verbatim>\<open>null\<close>. A run of uncovered records read there, from line \<open>b\<close> to line \<open>e\<close>, that is
  followed at once by a line which is neither a file marker nor an uncovered record, is
  stored under the key \<open>null\<close>: when the summary has no such key, the run returns and the
  summary gains the entry \<open>null\<close> whose only property is the uncovered sequence with that
  one range. A file marker read while the range is open takes the range with it.
\<close>

theorem range_before_first_marker_stored_under_null:
  assumes "filename st = None" and "\<not> isRecordingUncovered st"
    and "map_of (jsonSummary st) ''null'' = None"
    and "ls \<noteq> []" and "\<forall>x\<in>set ls. reSF x = None \<and> reDA x \<noteq> None"
    and "reDA (hd ls) = Some b" and "reDA (last ls) = Some e"
    and "reSF c = None" and "reDA c = None"
  shows "readLines st (ls @ [c]) =
     Inr (st\<lparr>isRecordingUncovered := False, uncoveredBeginning := b, uncoveredEnd := e,
            jsonSummary := jsonSummary st
              @ [(''null'', JObj [(''uncovered'', JArr [JStr (uncoveredString b e)])])]\<rparr>)"
proof -
  let ?st1 = "st\<lparr>isRecordingUncovered := True, uncoveredBeginning := b, uncoveredEnd := e\<rparr>"
  have 1: "readLines st ls = Inr ?st1"
    using readLines_uncovered_run [OF assms(4,5,6,7), of st] assms(2) by simp
  have 2: "recordRange (jsonSummary st) ''null'' (uncoveredString b e) =
      Inr (jsonSummary st @ [(''null'', JObj [(''uncovered'', JArr [JStr (uncoveredString b e)])])])"
    by (rule recordRange_absent [OF assms(3)]) (simp add: inherited_def)
  have 3: "onLine ?st1 c = Inr (?st1\<lparr>jsonSummary := jsonSummary st
              @ [(''null'', JObj [(''uncovered'', JArr [JStr (uncoveredString b e)])])],
              isRecordingUncovered := False\<rparr>)"
    using assms(1,8,9) 2 by (simp add: onLine_close propertyKey_def)
  show ?thesis
    by (simp add: readLines_append 1 3)
qed

theorem range_before_first_marker_stored_under_null_witness:
  "readLines (initialParser []) ([''DA:5,0'', ''DA:6,0''] @ [''DA:7,3'']) =
     Inr \<lparr>filename = None, isRecordingUncovered = False, uncoveredBeginning = 5, uncoveredEnd = 6,
          jsonSummary = [(''null'', JObj [(''uncovered'', JArr [JStr ''5-6''])])]\<rparr>"
proof -
  have a: "filename (initialParser []) = None" "\<not> isRecordingUncovered (initialParser [])"
    "map_of (jsonSummary (initialParser [])) ''null'' = None"
    by (simp_all add: initialParser_def)
  have b: "[''DA:5,0'', ''DA:6,0''] \<noteq> []" by simp
  have c: "\<forall>x\<in>set [''DA:5,0'', ''DA:6,0'']. reSF x = None \<and> reDA x \<noteq> None" by code_simp
  have d: "reDA (hd [''DA:5,0'', ''DA:6,0'']) = Some 5" "reDA (last [''DA:5,0'', ''DA:6,0'']) = Some 6"
    by code_simp+
  have e: "reSF ''DA:7,3'' = None" "reDA ''DA:7,3'' = None" by code_simp+
  have f: "uncoveredString 5 6 = ''5-6''" by code_simp
  from range_before_first_marker_stored_under_null [OF a b c d e] f show ?thesis
    by (simp add: initialParser_def)
qed

text \<open>
  Claim C10 as the specification states it fails when a file marker stands between the
  uncovered record and the line that closes the range: after \<^verbatim>\<open>DA:5,0\<close>, \<^verbatim>\<open>SF:b.js\<close>,
  \<^verbatim>\<open>end_of_record\<close> the range 5 is stored under \<^verbatim>\<open>b.js\<close>, and the summary has no key
  \<open>null\<close>.
\<close>

theorem range_before_first_marker_goes_to_first_file:
  "parseTrace [] [''DA:5,0'', ''SF:b.js'', ''end_of_record''] =
     Inr \<lparr>filename = Some ''b.js'', isRecordingUncovered = False,
          uncoveredBeginning = 5, uncoveredEnd = 5,
          jsonSummary = [(''b.js'', JObj [(''uncovered'', JArr [JStr ''5''])])]\<rparr>
   \<and> map_of [(''b.js'', JObj [(''uncovered'', JArr [JStr ''5''])])] ''null'' = None
   \<and> reDA ''DA:5,0'' = Some 5 \<and> reSF ''DA:5,0'' = None
   \<and> reSF ''end_of_record'' = None \<and> reDA ''end_of_record'' = None"
  by code_simp

end
